theory Spec2Isabelle
  imports Complex_Main "HOL-Library.AList"
begin

section \<open>Classification engine\<close>

text \<open>
  The source is a React front end. Two revisions of \<^verbatim>\<open>useQuadrant\<close> exist: the
  boundary-aware one (threshold 4, with the special case for two moderate ratings) and an
  earlier one (threshold 3, no special case). Ratings come from a range slider with
  \<^verbatim>\<open>min=1 max=5 step=1\<close> through \<^verbatim>\<open>parseInt\<close>, so they are modelled as integers.
\<close>

datatype PairKey = RAID | EFIM | SUCO

text \<open>A pair key is a string literal type in the source; \<open>key_of\<close> gives the string.\<close>

fun key_of :: "PairKey \<Rightarrow> string" where
  "key_of RAID = ''RAID''"
| "key_of EFIM = ''EFIM''"
| "key_of SUCO = ''SUCO''"

record QuadrantResult =
  name :: string
  desc :: string

text \<open>The table \<^verbatim>\<open>QUADRANTS\<close>, a string-keyed object, as an association list.\<close>

definition QUADRANTS :: "(string \<times> QuadrantResult) list" where
  "QUADRANTS =
    [(''RAID_HH'', \<lparr>name = ''Sweet Spot'', desc = ''Strategic choice: valuable locally and backed by curriculum/system.''\<rparr>),
     (''RAID_HL'', \<lparr>name = ''Hidden Gems'', desc = ''Strong local fit but not fully aligned; adapt/map or advocate.''\<rparr>),
     (''RAID_LH'', \<lparr>name = ''Box-Tickers'', desc = ''Easy to justify on paper; limited classroom value.''\<rparr>),
     (''RAID_LL'', \<lparr>name = ''Misfits'', desc = ''Neither useful nor aligned; consider phase-out.''\<rparr>),
     (''EFIM_HH'', \<lparr>name = ''Game-Changers'', desc = ''Deliver outcomes and reshape culture/outcomes more broadly.''\<rparr>),
     (''EFIM_HL'', \<lparr>name = ''Efficient Tools'', desc = ''Hit targets well but limited wider change; niche yet valuable.''\<rparr>),
     (''EFIM_LH'', \<lparr>name = ''Catalysts'', desc = ''Inconsistent outcomes but spark important long-term shifts.''\<rparr>),
     (''EFIM_LL'', \<lparr>name = ''Ineffectual'', desc = ''Neither achieves goals nor creates wider value.''\<rparr>),
     (''SUCO_HH'', \<lparr>name = ''Strategic Anchors'', desc = ''Long-lasting and well-integrated; backbone of strategy.''\<rparr>),
     (''SUCO_HL'', \<lparr>name = ''Stubborn Survivors'', desc = ''Enduring but isolated; risk inefficiency/silos.''\<rparr>),
     (''SUCO_LH'', \<lparr>name = ''Short-Lived Allies'', desc = ''Well-fitting but fragile; benefits may fade.''\<rparr>),
     (''SUCO_LL'', \<lparr>name = ''Dead Ends'', desc = ''Neither durable nor integrated; drains resources.''\<rparr>)]"

text \<open>
  The result of the special middle case. The en dash of \<^verbatim>\<open>1-2 classes\<close> is written as
  its three UTF-8 bytes.
\<close>

definition Uncertain :: QuadrantResult where
  "Uncertain =
    \<lparr>name = ''Uncertain'',
     desc = ''Evidence is inconclusive at present. Pilot or collect more data before committing; clarify success criteria, map curriculum links, and test in 1''
            @ [CHR 0xE2, CHR 0x80, CHR 0x93] @ ''2 classes.''\<rparr>"

text \<open>The letter of one axis in the lookup code: \<^verbatim>\<open>high ? "H" : "L"\<close>.\<close>

definition HL :: "bool \<Rightarrow> string" where
  "HL high = (if high then ''H'' else ''L'')"

text \<open>
  \<^verbatim>\<open>useQuadrant\<close> of the boundary-aware revision. The lookup \<^verbatim>\<open>QUADRANTS[code]\<close>
  gives \<^verbatim>\<open>undefined\<close> for a missing key, here \<open>None\<close>.
\<close>

definition useQuadrant :: "PairKey \<Rightarrow> int \<Rightarrow> int \<Rightarrow> QuadrantResult option" where
  "useQuadrant pair xVal yVal =
    (if xVal = 3 \<and> yVal = 3 then Some Uncertain
     else
       let xHigh = (xVal \<ge> 4);
           yHigh = (yVal \<ge> 4);
           code = key_of pair @ ''_'' @ HL yHigh @ HL xHigh
       in map_of QUADRANTS code)"

text \<open>\<^verbatim>\<open>useQuadrant\<close> of the earlier revision (\<^verbatim>\<open>src/App.tsx\<close>): threshold 3, no special case.\<close>

definition useQuadrant_v1 :: "PairKey \<Rightarrow> int \<Rightarrow> int \<Rightarrow> QuadrantResult option" where
  "useQuadrant_v1 pair xVal yVal =
    (let xHigh = (xVal \<ge> 3);
         yHigh = (yVal \<ge> 3);
         code = key_of pair @ ''_'' @ HL yHigh @ HL xHigh
     in map_of QUADRANTS code)"

text \<open>The catalog entry of a pair for the two axis bits, Y axis first.\<close>

definition quadrantAt :: "PairKey \<Rightarrow> bool \<Rightarrow> bool \<Rightarrow> QuadrantResult option" where
  "quadrantAt pair yHigh xHigh = map_of QUADRANTS (key_of pair @ ''_'' @ HL yHigh @ HL xHigh)"


section \<open>Edge coaching\<close>

record EdgeCoach =
  y3_x4plus :: string
  y4plus_x3 :: string
  y3_x3 :: string

text \<open>
  The table \<^verbatim>\<open>MID_EDGE_COACH\<close>. The em dash and the typographic quotes of the source are
  written as their UTF-8 bytes.
\<close>

definition MID_EDGE_COACH :: "(string \<times> EdgeCoach) list" where
  "MID_EDGE_COACH =
    [(''RAID'',
      \<lparr>y3_x4plus = ''Good on paper; strengthen classroom fit with quick adaptations, exemplars, and teacher feedback loops.'',
       y4plus_x3 = ''Strong local fit; close the gaps'' @ [CHR 0xE2, CHR 0x80, CHR 0x94]
                   @ ''map outcomes explicitly, add scope & sequence links.'',
       y3_x3 = ''Promising but under-specified'' @ [CHR 0xE2, CHR 0x80, CHR 0x94]
               @ ''pilot, capture evidence, and co-design a minimal adaptation guide.''\<rparr>),
     (''EFIM'',
      \<lparr>y3_x4plus = ''Catalytic but unreliable; standardise the core routine and monitor fidelity to stabilise outcomes.'',
       y4plus_x3 = ''Targets met, but little culture shift; widen adoption, share wins, and integrate into whole-school routines.'',
       y3_x3 = ''Try a contained pilot with clear measures and coaching; keep/dump based on evidence at term review.''\<rparr>),
     (''SUCO'',
      \<lparr>y3_x4plus = ''Well-fitting but effortful; embed into timetable, roles, and budget to de-fragilise.'',
       y4plus_x3 = ''Durable but siloed; align language, timelines, and data cycles to reduce friction.'',
       y3_x3 = ''Rationalise overlaps, name owners, and set a '' @ [CHR 0xE2, CHR 0x80, CHR 0x98]
               @ ''sunset unless embedded'' @ [CHR 0xE2, CHR 0x80, CHR 0x99] @ '' checkpoint.''\<rparr>)]"

text \<open>\<^verbatim>\<open>getEdgeCoach\<close>: \<^verbatim>\<open>null\<close> is \<open>None\<close>.\<close>

definition getEdgeCoach :: "PairKey \<Rightarrow> int \<Rightarrow> int \<Rightarrow> int \<Rightarrow> string option" where
  "getEdgeCoach pairKey xv yv threshold =
    (case map_of MID_EDGE_COACH (key_of pairKey) of
       None \<Rightarrow> None
     | Some coach \<Rightarrow>
         let hi = (\<lambda>n. n \<ge> threshold) in
         if yv = 3 \<and> hi xv then Some (y3_x4plus coach)
         else if hi yv \<and> xv = 3 then Some (y4plus_x3 coach)
         else if yv = 3 \<and> xv = 3 then Some (y3_x3 coach)
         else None)"

text \<open>
  The text shown under a pair: \<^verbatim>\<open>getEdgeCoach(p.key, x, y, 4) ?? q.desc\<close> with
  \<^verbatim>\<open>q = useQuadrant(p.key, x, y)\<close>. Reading a field of \<^verbatim>\<open>undefined\<close> throws a
  TypeError, which is \<open>None\<close> here.
\<close>

definition adviceText :: "PairKey \<Rightarrow> int \<Rightarrow> int \<Rightarrow> string option" where
  "adviceText p xv yv =
    (case useQuadrant p xv yv of
       None \<Rightarrow> None
     | Some q \<Rightarrow>
         (case getEdgeCoach p xv yv 4 of
            Some coach \<Rightarrow> Some coach
          | None \<Rightarrow> Some (desc q)))"

section \<open>Ratings state and the Evidence Gate\<close>

text \<open>
  \<^verbatim>\<open>Scores = Record<string, number>\<close>: an object whose keys keep their insertion order, so
  an association list. \<^verbatim>\<open>scores[k]\<close> is \<open>map_of scores k\<close>, \<^verbatim>\<open>undefined\<close> being \<open>None\<close>;
  the copy with one key set, \<^verbatim>\<open>{ ...s, [k]: n }\<close>, is \<open>AList.update k n s\<close>: an existing
  key keeps its place, a new one goes to the end.
\<close>

type_synonym Scores = "(string \<times> int) list"

record Pair =
  pair_key :: PairKey
  pair_title :: string
  pair_x :: string
  pair_y :: string

definition PAIRS :: "Pair list" where
  "PAIRS =
    [\<lparr>pair_key = RAID, pair_title = ''Relevance vs Alignment'', pair_x = ''Alignment'', pair_y = ''Relevance''\<rparr>,
     \<lparr>pair_key = EFIM, pair_title = ''Effectiveness vs Impact'', pair_x = ''Impact'', pair_y = ''Effectiveness''\<rparr>,
     \<lparr>pair_key = SUCO, pair_title = ''Sustainability vs Coherence'', pair_x = ''Coherence'', pair_y = ''Sustainability''\<rparr>]"

text \<open>The initial value of the \<^verbatim>\<open>scores\<close> state.\<close>

definition initialScores :: Scores where
  "initialScores =
    [(''Relevance'', 3), (''Alignment'', 3), (''Effectiveness'', 3),
     (''Impact'', 3), (''Sustainability'', 3), (''Coherence'', 3)]"

text \<open>The updater passed to \<^verbatim>\<open>setScores\<close> by a slider: \<^verbatim>\<open>(s) => ({ ...s, [k]: n })\<close>.\<close>

definition setScore :: "string \<Rightarrow> int \<Rightarrow> Scores \<Rightarrow> Scores" where
  "setScore k n s = AList.update k n s"

text \<open>
  The flag inside \<^verbatim>\<open>Grid\<close>: \<^verbatim>\<open>x === 3 || y === 3\<close> on the two numbers it is given.
\<close>

definition Grid_gateActive :: "int \<Rightarrow> int \<Rightarrow> bool" where
  "Grid_gateActive xv yv = (xv = 3 \<or> yv = 3)"

text \<open>
  The flag in the summary card of \<^verbatim>\<open>App\<close>:
  \<^verbatim>\<open>scores[p.x] === 3 || scores[p.y] === 3\<close>. A missing key reads \<^verbatim>\<open>undefined\<close>, which is
  not strictly equal to 3.
\<close>

definition App_gateActive :: "Scores \<Rightarrow> Pair \<Rightarrow> bool" where
  "App_gateActive sc p =
    (map_of sc (pair_x p) = Some 3 \<or> map_of sc (pair_y p) = Some 3)"

text \<open>
  The condition of the badge in the tab of a pair:
  \<^verbatim>\<open>scores[p.y] === 3 || scores[p.x] === 3\<close>.
\<close>

definition Tab_gateActive :: "Scores \<Rightarrow> Pair \<Rightarrow> bool" where
  "Tab_gateActive sc p =
    (map_of sc (pair_y p) = Some 3 \<or> map_of sc (pair_x p) = Some 3)"

section \<open>Plot coordinates\<close>

text \<open>
  \<^verbatim>\<open>Grid\<close> computes in JavaScript numbers, which are binary floating point. For the
  sizes the component has (220 and 300, padding 24) and integer ratings from 1 to 5 every
  intermediate value is a multiple of a quarter below \<open>2\<^sup>9\<close>, which doubles represent
  exactly, so the rational arithmetic below gives the same numbers.
\<close>

record Pos =
  cx :: rat
  cy :: rat

record Point =
  pt_x :: int
  pt_y :: int

definition size_of :: "bool \<Rightarrow> rat" where
  "size_of is_compact = (if is_compact then 220 else 300)"

definition padding :: rat where
  "padding = 24"

definition plotW :: "bool \<Rightarrow> rat" where
  "plotW is_compact = size_of is_compact - padding * 2"

definition plotH :: "bool \<Rightarrow> rat" where
  "plotH is_compact = size_of is_compact - padding * 2"

text \<open>
  The closure \<^verbatim>\<open>toPos\<close>, with the variables it captures (\<^verbatim>\<open>padding\<close>, \<^verbatim>\<open>plotW\<close>,
  \<^verbatim>\<open>plotH\<close>) as its first arguments.
\<close>

definition toPos :: "rat \<Rightarrow> rat \<Rightarrow> rat \<Rightarrow> int \<Rightarrow> int \<Rightarrow> Pos" where
  "toPos pad w h sx sy =
    \<lparr>cx = pad + ((of_int sx - 1) / 4) * w,
     cy = pad + (1 - (of_int sy - 1) / 4) * h\<rparr>"

text \<open>What \<^verbatim>\<open>Grid\<close> draws: the circle of the current point and one circle per saved point.\<close>

record Drawing =
  current :: Pos
  saved :: "Pos list"
  gate_ring :: bool

definition Grid :: "bool \<Rightarrow> int \<Rightarrow> int \<Rightarrow> Point list \<Rightarrow> Drawing" where
  "Grid is_compact xv yv points =
    \<lparr>current = toPos padding (plotW is_compact) (plotH is_compact) xv yv,
     saved = map (\<lambda>p. toPos padding (plotW is_compact) (plotH is_compact) (pt_x p) (pt_y p)) points,
     gate_ring = Grid_gateActive xv yv\<rparr>"


section \<open>JavaScript values and JSON\<close>

text \<open>
  Strings are lists of bytes, read as UTF-8. \<^verbatim>\<open>JSON.stringify\<close> and \<^verbatim>\<open>JSON.parse\<close> belong
  to the platform, not to the repository; they are modelled for the values the
  application stores: \<^verbatim>\<open>null\<close>, booleans, integers, strings, arrays and objects. A number
  with a fraction or an exponent and an escape for a surrogate code unit are outside the
  value type, and the parser refuses them. The parser accepts nothing that
  \<^verbatim>\<open>JSON.parse\<close> rejects. Integers are exact (a double rounds beyond \<open>2\<^sup>5\<^sup>3\<close>), and
  the keys of an object keep the order in which they were written (JavaScript moves keys
  that are array indices to the front); the application stores small integers under
  keys that are names.
\<close>

datatype jsval =
    JNull
  | JBool bool
  | JNum int
  | JStr string
  | JArr "jsval list"
  | JObj "(string \<times> jsval) list"

subsection \<open>Numbers as text\<close>

definition digit_char :: "nat \<Rightarrow> char" where
  "digit_char d = ''0123456789'' ! d"

text \<open>\<^verbatim>\<open>String(n)\<close> for a natural number: its decimal digits.\<close>

fun decimal :: "nat \<Rightarrow> string" where
  "decimal n = (if n < 10 then [digit_char n] else decimal (n div 10) @ [digit_char (n mod 10)])"

declare decimal.simps [simp del]

definition String_int :: "int \<Rightarrow> string" where
  "String_int i = (if i < 0 then CHR ''-'' # decimal (nat (- i)) else decimal (nat i))"

definition is_digit :: "char \<Rightarrow> bool" where
  "is_digit c = (48 \<le> (of_char c :: nat) \<and> (of_char c :: nat) \<le> 57)"

definition digit_val :: "char \<Rightarrow> nat" where
  "digit_val c = of_char c - 48"

definition number_of :: "string \<Rightarrow> nat" where
  "number_of ds = foldl (\<lambda>a c. 10 * a + digit_val c) 0 ds"

subsection \<open>Writing JSON\<close>

definition hex_char :: "nat \<Rightarrow> char" where
  "hex_char d = ''0123456789abcdef'' ! d"

text \<open>
  The escapes of \<^verbatim>\<open>JSON.stringify\<close>: the quote, the backslash, the five short escapes
  and \<^verbatim>\<open>\u00XX\<close> for every other control character.
\<close>

definition escape_char :: "char \<Rightarrow> string" where
  "escape_char c =
    (if c = CHR 0x22 then [CHR 0x5C, CHR 0x22]
     else if c = CHR 0x5C then [CHR 0x5C, CHR 0x5C]
     else if c = CHR 0x08 then [CHR 0x5C, CHR ''b'']
     else if c = CHR 0x0C then [CHR 0x5C, CHR ''f'']
     else if c = CHR 0x0A then [CHR 0x5C, CHR ''n'']
     else if c = CHR 0x0D then [CHR 0x5C, CHR ''r'']
     else if c = CHR 0x09 then [CHR 0x5C, CHR ''t'']
     else if (of_char c :: nat) < 32 then
       [CHR 0x5C, CHR ''u'', CHR ''0'', CHR ''0'',
        hex_char (of_char c div 16), hex_char (of_char c mod 16)]
     else [c])"

definition quote :: "string \<Rightarrow> string" where
  "quote s = CHR 0x22 # concat (map escape_char s) @ [CHR 0x22]"

fun join_comma :: "string list \<Rightarrow> string" where
  "join_comma [] = []"
| "join_comma [x] = x"
| "join_comma (x # y # zs) = x @ CHR '','' # join_comma (y # zs)"

fun JSON_stringify :: "jsval \<Rightarrow> string" where
  "JSON_stringify JNull = ''null''"
| "JSON_stringify (JBool b) = (if b then ''true'' else ''false'')"
| "JSON_stringify (JNum i) = String_int i"
| "JSON_stringify (JStr s) = quote s"
| "JSON_stringify (JArr vs) = CHR ''['' # join_comma (map JSON_stringify vs) @ '']''"
| "JSON_stringify (JObj kvs) =
     CHR ''{'' # join_comma (map (\<lambda>kv. quote (fst kv) @ CHR '':'' # JSON_stringify (snd kv)) kvs) @ ''}''"

subsection \<open>Reading JSON\<close>

definition is_ws :: "char \<Rightarrow> bool" where
  "is_ws c = (c = CHR '' '' \<or> c = CHR 0x09 \<or> c = CHR 0x0A \<or> c = CHR 0x0D)"

definition skip_ws :: "string \<Rightarrow> string" where
  "skip_ws s = dropWhile is_ws s"

definition hex_val :: "char \<Rightarrow> nat option" where
  "hex_val c =
    (let n = (of_char c :: nat) in
     if 48 \<le> n \<and> n \<le> 57 then Some (n - 48)
     else if 97 \<le> n \<and> n \<le> 102 then Some (n - 87)
     else if 65 \<le> n \<and> n \<le> 70 then Some (n - 55)
     else None)"

text \<open>The bytes of the code unit of a \<^verbatim>\<open>\uXXXX\<close> escape; a surrogate has none.\<close>

definition utf8 :: "nat \<Rightarrow> string option" where
  "utf8 n =
    (if n < 0x80 then Some [char_of n]
     else if n < 0x800 then Some [char_of (0xC0 + n div 64), char_of (0x80 + n mod 64)]
     else if 0xD800 \<le> n \<and> n < 0xE000 then None
     else Some [char_of (0xE0 + n div 4096), char_of (0x80 + (n div 64) mod 64),
                char_of (0x80 + n mod 64)])"

definition unicode_escape :: "char \<Rightarrow> char \<Rightarrow> char \<Rightarrow> char \<Rightarrow> string option" where
  "unicode_escape a b c d =
    (case (hex_val a, hex_val b, hex_val c, hex_val d) of
       (Some h3, Some h2, Some h1, Some h0) \<Rightarrow> utf8 (((h3 * 16 + h2) * 16 + h1) * 16 + h0)
     | _ \<Rightarrow> None)"

definition unescape :: "char \<Rightarrow> char option" where
  "unescape e =
    (if e = CHR 0x22 then Some (CHR 0x22)
     else if e = CHR 0x5C then Some (CHR 0x5C)
     else if e = CHR ''/'' then Some (CHR ''/'')
     else if e = CHR ''b'' then Some (CHR 0x08)
     else if e = CHR ''f'' then Some (CHR 0x0C)
     else if e = CHR ''n'' then Some (CHR 0x0A)
     else if e = CHR ''r'' then Some (CHR 0x0D)
     else if e = CHR ''t'' then Some (CHR 0x09)
     else None)"

text \<open>
  The characters of a string after its opening quote, up to the closing quote: the string
  read and the input that follows it.
\<close>

fun parse_chars :: "string \<Rightarrow> (string \<times> string) option" where
  "parse_chars [] = None"
| "parse_chars (c # s) =
    (if c = CHR 0x22 then Some ([], s)
     else if c = CHR 0x5C then
       (case s of
          [] \<Rightarrow> None
        | e # t \<Rightarrow>
            if e = CHR ''u'' then
              (case t of
                 h3 # h2 # h1 # h0 # t' \<Rightarrow>
                   (case unicode_escape h3 h2 h1 h0 of
                      None \<Rightarrow> None
                    | Some bs \<Rightarrow>
                        (case parse_chars t' of
                           None \<Rightarrow> None
                         | Some (r, rest) \<Rightarrow> Some (bs @ r, rest)))
               | _ \<Rightarrow> None)
            else
              (case unescape e of
                 None \<Rightarrow> None
               | Some ch \<Rightarrow>
                   (case parse_chars t of
                      None \<Rightarrow> None
                    | Some (r, rest) \<Rightarrow> Some (ch # r, rest))))
     else if (of_char c :: nat) < 32 then None
     else
       (case parse_chars s of
          None \<Rightarrow> None
        | Some (r, rest) \<Rightarrow> Some (c # r, rest)))"

text \<open>
  A number: an optional minus sign and digits without a leading zero. What follows must
  not continue the number.
\<close>

definition parse_number :: "string \<Rightarrow> (jsval \<times> string) option" where
  "parse_number s =
    (let neg = (s \<noteq> [] \<and> hd s = CHR ''-'');
         t = (if neg then tl s else s);
         ds = takeWhile is_digit t;
         r = dropWhile is_digit t
     in if ds = [] \<or> (1 < length ds \<and> hd ds = CHR ''0'') then None
        else if r \<noteq> [] \<and> (hd r = CHR ''.'' \<or> hd r = CHR ''e'' \<or> hd r = CHR ''E'') then None
        else Some (JNum (if neg then - int (number_of ds) else int (number_of ds)), r))"

definition parse_literal :: "string \<Rightarrow> (jsval \<times> string) option" where
  "parse_literal s =
    (if take 4 s = ''null'' then Some (JNull, drop 4 s)
     else if take 4 s = ''true'' then Some (JBool True, drop 4 s)
     else if take 5 s = ''false'' then Some (JBool False, drop 5 s)
     else None)"

text \<open>
  The members of an object in the order read; a key read again replaces the value
  and keeps the first place, as defining the property again does.
\<close>

definition object_of :: "(string \<times> jsval) list \<Rightarrow> jsval" where
  "object_of kvs = JObj (foldl (\<lambda>acc kv. AList.update (fst kv) (snd kv) acc) [] kvs)"

text \<open>
  The recursive descent, with fuel: every call uses one unit, and \<open>JSON_parse\<close> gives
  two units per character, more than a descent can use, since every second call reads
  at least one character.
\<close>

fun parse_value :: "nat \<Rightarrow> string \<Rightarrow> (jsval \<times> string) option"
  and parse_elems :: "nat \<Rightarrow> string \<Rightarrow> (jsval list \<times> string) option"
  and parse_members :: "nat \<Rightarrow> string \<Rightarrow> ((string \<times> jsval) list \<times> string) option"
where
  "parse_value 0 s = None"
| "parse_value (Suc n) s =
    (case skip_ws s of
       [] \<Rightarrow> None
     | c # r \<Rightarrow>
         if c = CHR ''{'' then
           (if skip_ws r \<noteq> [] \<and> hd (skip_ws r) = CHR ''}'' then Some (JObj [], tl (skip_ws r))
            else (case parse_members n r of
                    None \<Rightarrow> None
                  | Some (kvs, r') \<Rightarrow> Some (object_of kvs, r')))
         else if c = CHR ''['' then
           (if skip_ws r \<noteq> [] \<and> hd (skip_ws r) = CHR '']'' then Some (JArr [], tl (skip_ws r))
            else (case parse_elems n r of
                    None \<Rightarrow> None
                  | Some (vs, r') \<Rightarrow> Some (JArr vs, r')))
         else if c = CHR 0x22 then
           (case parse_chars r of
              None \<Rightarrow> None
            | Some (str, r') \<Rightarrow> Some (JStr str, r'))
         else if c = CHR ''-'' \<or> is_digit c then parse_number (c # r)
         else parse_literal (c # r))"
| "parse_elems 0 s = None"
| "parse_elems (Suc n) s =
    (case parse_value n s of
       None \<Rightarrow> None
     | Some (v, r) \<Rightarrow>
         (case skip_ws r of
            [] \<Rightarrow> None
          | c # r' \<Rightarrow>
              if c = CHR '']'' then Some ([v], r')
              else if c = CHR '','' then
                (case parse_elems n r' of
                   None \<Rightarrow> None
                 | Some (vs, r'') \<Rightarrow> Some (v # vs, r''))
              else None))"
| "parse_members 0 s = None"
| "parse_members (Suc n) s =
    (case skip_ws s of
       [] \<Rightarrow> None
     | q # r \<Rightarrow>
         if q \<noteq> CHR 0x22 then None
         else
           (case parse_chars r of
              None \<Rightarrow> None
            | Some (k, r1) \<Rightarrow>
                (case skip_ws r1 of
                   [] \<Rightarrow> None
                 | colon # r2 \<Rightarrow>
                     if colon \<noteq> CHR '':'' then None
                     else
                       (case parse_value n r2 of
                          None \<Rightarrow> None
                        | Some (v, r3) \<Rightarrow>
                            (case skip_ws r3 of
                               [] \<Rightarrow> None
                             | c # r4 \<Rightarrow>
                                 if c = CHR ''}'' then Some ([(k, v)], r4)
                                 else if c = CHR '','' then
                                   (case parse_members n r4 of
                                      None \<Rightarrow> None
                                    | Some (kvs, r5) \<Rightarrow> Some ((k, v) # kvs, r5))
                                 else None)))))"

text \<open>
  \<^verbatim>\<open>JSON.parse\<close>: one value, then only white space. A \<^verbatim>\<open>SyntaxError\<close> is \<open>None\<close>.
\<close>

definition JSON_parse :: "string \<Rightarrow> jsval option" where
  "JSON_parse s =
    (case parse_value (2 * length s + 2) s of
       None \<Rightarrow> None
     | Some (v, r) \<Rightarrow> if skip_ws r = [] then Some v else None)"


section \<open>Saved resources\<close>

record SavedResource =
  res_id :: string
  res_name :: string
  res_scores :: Scores

text \<open>
  The JavaScript value of a saved resource, as \<^verbatim>\<open>JSON.stringify\<close> sees it: an object
  with the keys \<^verbatim>\<open>id\<close>, \<^verbatim>\<open>name\<close> and \<^verbatim>\<open>scores\<close> in the order of the object literal.
\<close>

definition enc_scores :: "Scores \<Rightarrow> jsval" where
  "enc_scores s = JObj (map (\<lambda>kn. (fst kn, JNum (snd kn))) s)"

definition enc_resource :: "SavedResource \<Rightarrow> jsval" where
  "enc_resource r =
    JObj [(''id'', JStr (res_id r)), (''name'', JStr (res_name r)),
          (''scores'', enc_scores (res_scores r))]"

definition enc_resources :: "SavedResource list \<Rightarrow> jsval" where
  "enc_resources rs = JArr (map enc_resource rs)"

text \<open>
  The state \<^verbatim>\<open>resources\<close> is declared \<^verbatim>\<open>SavedResource[]\<close> and takes the value of
  \<^verbatim>\<open>JSON.parse\<close> without a check. \<open>as_resources\<close> reads a value at the declared type;
  \<open>None\<close> is a value of another shape, which the declared type excludes.
\<close>

fun dec_entries :: "(string \<times> jsval) list \<Rightarrow> Scores option" where
  "dec_entries [] = Some []"
| "dec_entries ((k, JNum n) # kvs) =
     (case dec_entries kvs of None \<Rightarrow> None | Some s \<Rightarrow> Some ((k, n) # s))"
| "dec_entries kvs = None"

definition dec_resource :: "jsval \<Rightarrow> SavedResource option" where
  "dec_resource v =
    (case v of
       JObj kvs \<Rightarrow>
         (case (map_of kvs ''id'', map_of kvs ''name'', map_of kvs ''scores'') of
            (Some (JStr i), Some (JStr n), Some (JObj sc)) \<Rightarrow>
              (case dec_entries sc of
                 None \<Rightarrow> None
               | Some s \<Rightarrow> Some \<lparr>res_id = i, res_name = n, res_scores = s\<rparr>)
          | _ \<Rightarrow> None)
     | _ \<Rightarrow> None)"

definition as_resources :: "jsval \<Rightarrow> SavedResource list option" where
  "as_resources v = (case v of JArr vs \<Rightarrow> those (map dec_resource vs) | _ \<Rightarrow> None)"

section \<open>The application state and the resource store\<close>

text \<open>
  The state variables of \<^verbatim>\<open>App\<close>, together with the browser's \<^verbatim>\<open>localStorage\<close>, which
  outlives the component. Writing to the store is taken to succeed.
\<close>

record App =
  pairKey :: PairKey
  showFull :: bool
  scores :: Scores
  resources :: "SavedResource list"
  resourceName :: string
  localStorage :: "string \<rightharpoonup> string"

text \<open>
  What \<^verbatim>\<open>saveCurrentResource\<close> reads from the environment: the result of
  \<^verbatim>\<open>crypto.randomUUID\<close>, \<open>None\<close> where the browser has no such function, and the clock
  \<^verbatim>\<open>Date.now()\<close>.
\<close>

record Env =
  randomUUID :: "string option"
  now :: nat

text \<open>\<^verbatim>\<open>(crypto as any).randomUUID?.() || String(Date.now())\<close>\<close>

definition newId :: "Env \<Rightarrow> string" where
  "newId env =
    (case randomUUID env of
       None \<Rightarrow> decimal (now env)
     | Some u \<Rightarrow> if u \<noteq> [] then u else decimal (now env))"

text \<open>
  The white space that \<^verbatim>\<open>String.prototype.trim\<close> removes, each character as its UTF-8
  bytes: the six ASCII ones, U+00A0, U+1680, U+2000 to U+200A, U+2028, U+2029, U+202F,
  U+205F, U+3000 and U+FEFF.
\<close>

definition WhiteSpace :: "string list" where
  "WhiteSpace =
    [[CHR 0x09], [CHR 0x0A], [CHR 0x0B], [CHR 0x0C], [CHR 0x0D], [CHR 0x20],
     [CHR 0xC2, CHR 0xA0], [CHR 0xE1, CHR 0x9A, CHR 0x80],
     [CHR 0xE2, CHR 0x80, CHR 0x80], [CHR 0xE2, CHR 0x80, CHR 0x81],
     [CHR 0xE2, CHR 0x80, CHR 0x82], [CHR 0xE2, CHR 0x80, CHR 0x83],
     [CHR 0xE2, CHR 0x80, CHR 0x84], [CHR 0xE2, CHR 0x80, CHR 0x85],
     [CHR 0xE2, CHR 0x80, CHR 0x86], [CHR 0xE2, CHR 0x80, CHR 0x87],
     [CHR 0xE2, CHR 0x80, CHR 0x88], [CHR 0xE2, CHR 0x80, CHR 0x89],
     [CHR 0xE2, CHR 0x80, CHR 0x8A], [CHR 0xE2, CHR 0x80, CHR 0xA8],
     [CHR 0xE2, CHR 0x80, CHR 0xA9], [CHR 0xE2, CHR 0x80, CHR 0xAF],
     [CHR 0xE2, CHR 0x81, CHR 0x9F], [CHR 0xE3, CHR 0x80, CHR 0x80],
     [CHR 0xEF, CHR 0xBB, CHR 0xBF]]"

text \<open>Removing from the front of a string every leading token of a list.\<close>

function strip_front :: "string list \<Rightarrow> string \<Rightarrow> string" where
  "strip_front ws s =
    (case find (\<lambda>w. w \<noteq> [] \<and> take (length w) s = w) ws of
       None \<Rightarrow> s
     | Some w \<Rightarrow> strip_front ws (drop (length w) s))"
  by pat_completeness auto
termination
proof (relation "measure (\<lambda>(ws, s). length s)")
  show "wf (measure (\<lambda>(ws, s). length s))" by simp
next
  fix ws :: "string list" and s w :: string
  assume "find (\<lambda>w. w \<noteq> [] \<and> take (length w) s = w) ws = Some w"
  then have "w \<noteq> [] \<and> take (length w) s = w"
    by (auto simp add: find_Some_iff)
  then have "s \<noteq> []" by auto
  with \<open>w \<noteq> [] \<and> take (length w) s = w\<close>
  show "((ws, drop (length w) s), (ws, s)) \<in> measure (\<lambda>(ws, s). length s)"
    by simp
qed

declare strip_front.simps [simp del]

definition trim :: "string \<Rightarrow> string" where
  "trim s = rev (strip_front (map rev WhiteSpace) (rev (strip_front WhiteSpace s)))"

text \<open>
  The initialiser of \<^verbatim>\<open>resources\<close>:
  \<^verbatim>\<open>try { return JSON.parse(localStorage.getItem("resourcesV1") || "[]") } catch { return [] }\<close>.
  \<^verbatim>\<open>getItem\<close> gives \<^verbatim>\<open>null\<close> for a missing key, and \<^verbatim>\<open>null\<close> and the empty string are
  both falsy.
\<close>

definition load :: "(string \<rightharpoonup> string) \<Rightarrow> jsval" where
  "load ls =
    (let item = (case ls ''resourcesV1'' of
                   None \<Rightarrow> ''[]''
                 | Some b \<Rightarrow> if b = [] then ''[]'' else b)
     in case JSON_parse item of
          None \<Rightarrow> JArr []
        | Some v \<Rightarrow> v)"

text \<open>The state of a newly mounted \<^verbatim>\<open>App\<close>: what a restart of the process gives.\<close>

definition mount :: "(string \<rightharpoonup> string) \<Rightarrow> App option" where
  "mount ls =
    (case as_resources (load ls) of
       None \<Rightarrow> None
     | Some rs \<Rightarrow>
         Some \<lparr>pairKey = RAID, showFull = False, scores = initialScores, resources = rs,
               resourceName = [], localStorage = ls\<rparr>)"

definition saveAll :: "SavedResource list \<Rightarrow> App \<Rightarrow> App" where
  "saveAll next st =
    st\<lparr>resources := next,
       localStorage := (localStorage st)(''resourcesV1'' \<mapsto> JSON_stringify (enc_resources next))\<rparr>"

definition saveCurrentResource :: "Env \<Rightarrow> App \<Rightarrow> App" where
  "saveCurrentResource env st =
    (let trimmed = trim (resourceName st);
         nm = (if trimmed \<noteq> [] then trimmed
               else ''Resource '' @ decimal (length (resources st) + 1));
         r = \<lparr>res_id = newId env, res_name = nm, res_scores = scores st\<rparr>;
         next = resources st @ [r]
     in (saveAll next st)\<lparr>resourceName := []\<rparr>)"

definition deleteResource :: "string \<Rightarrow> App \<Rightarrow> App" where
  "deleteResource rid st = saveAll (filter (\<lambda>r. res_id r \<noteq> rid) (resources st)) st"

text \<open>A slider: \<^verbatim>\<open>setScores((s) => ({ ...s, [k]: n }))\<close>.\<close>

definition setScores :: "string \<Rightarrow> int \<Rightarrow> App \<Rightarrow> App" where
  "setScores k n st = st\<lparr>scores := setScore k n (scores st)\<rparr>"

text \<open>
  The keys of a JavaScript object are different from each other; a state whose score
  objects are so is well formed.
\<close>

definition wf_App :: "App \<Rightarrow> bool" where
  "wf_App st =
    (distinct (map fst (scores st)) \<and> (\<forall>r \<in> set (resources st). distinct (map fst (res_scores r))))"

text \<open>The object \<^verbatim>\<open>r\<close> that \<^verbatim>\<open>saveCurrentResource\<close> builds and appends.\<close>

definition savedEntry :: "Env \<Rightarrow> App \<Rightarrow> SavedResource" where
  "savedEntry env st =
    \<lparr>res_id = newId env,
     res_name = (if trim (resourceName st) \<noteq> [] then trim (resourceName st)
                 else ''Resource '' @ decimal (length (resources st) + 1)),
     res_scores = scores st\<rparr>"

section \<open>Score objects as references\<close>

text \<open>
  In JavaScript the \<^verbatim>\<open>scores\<close> state and the \<^verbatim>\<open>scores\<close> field of a saved resource are
  references to objects. This second model keeps the objects in a store, so that sharing
  between the live ratings and a saved entry would be visible: \<open>objects\<close> gives the
  content at each address, the addresses below \<open>allocated\<close> are in use, and an object
  literal takes the next free address. Writing the list to \<^verbatim>\<open>localStorage\<close> reads the
  objects and changes none, and is left to the model above.
\<close>

record RefResource =
  ref_id :: string
  ref_name :: string
  ref_scores :: nat

record RefApp =
  objects :: "nat \<Rightarrow> Scores"
  allocated :: nat
  scoresRef :: nat
  resourcesRef :: "RefResource list"
  resourceNameRef :: string

definition alloc :: "Scores \<Rightarrow> RefApp \<Rightarrow> nat \<times> RefApp" where
  "alloc obj h =
    (allocated h, h\<lparr>objects := (objects h)(allocated h := obj), allocated := Suc (allocated h)\<rparr>)"

text \<open>
  \<^verbatim>\<open>setScores((s) => ({ ...s, [k]: n }))\<close>: a new object, and the state points to it.
\<close>

definition setScores_ref :: "string \<Rightarrow> int \<Rightarrow> RefApp \<Rightarrow> RefApp" where
  "setScores_ref k n h =
    (let (a, h') = alloc (setScore k n (objects h (scoresRef h))) h
     in h'\<lparr>scoresRef := a\<rparr>)"

text \<open>
  \<^verbatim>\<open>saveCurrentResource\<close>: the copy \<^verbatim>\<open>{ ...scores }\<close> is a new object with the content of
  the live one.
\<close>

definition saveCurrentResource_ref :: "Env \<Rightarrow> RefApp \<Rightarrow> RefApp" where
  "saveCurrentResource_ref env h =
    (let trimmed = trim (resourceNameRef h);
         nm = (if trimmed \<noteq> [] then trimmed
               else ''Resource '' @ decimal (length (resourcesRef h) + 1));
         (a, h') = alloc (objects h (scoresRef h)) h;
         r = \<lparr>ref_id = newId env, ref_name = nm, ref_scores = a\<rparr>;
         next = resourcesRef h @ [r]
     in h'\<lparr>resourcesRef := next, resourceNameRef := []\<rparr>)"

text \<open>The saved resource that a reference-level entry stands for.\<close>

definition deref :: "RefApp \<Rightarrow> RefResource \<Rightarrow> SavedResource" where
  "deref h r = \<lparr>res_id = ref_id r, res_name = ref_name r, res_scores = objects h (ref_scores r)\<rparr>"

text \<open>Every reference of the state points to an object in use.\<close>

definition wf_ref :: "RefApp \<Rightarrow> bool" where
  "wf_ref h = (scoresRef h < allocated h \<and> (\<forall>r \<in> set (resourcesRef h). ref_scores r < allocated h))"

text \<open>A state of the first model shows the values of a state with references.\<close>

definition shows_ref :: "App \<Rightarrow> RefApp \<Rightarrow> bool" where
  "shows_ref st h =
    (scores st = objects h (scoresRef h)
     \<and> resources st = map (deref h) (resourcesRef h)
     \<and> resourceName st = resourceNameRef h)"

section \<open>Example states\<close>

text \<open>
  A browser without \<^verbatim>\<open>crypto.randomUUID\<close>, a freshly mounted application in which a name
  has been typed, the same application with two saved resources, and the reference-level
  state of the first.
\<close>

definition demoEnv :: Env where
  "demoEnv = \<lparr>randomUUID = None, now = 1700000000123\<rparr>"

definition demoApp :: App where
  "demoApp =
    \<lparr>pairKey = RAID, showFull = False, scores = initialScores, resources = [],
     resourceName = ''  My pilot '', localStorage = Map.empty\<rparr>"

definition demoTwo :: App where
  "demoTwo =
    \<lparr>pairKey = RAID, showFull = False, scores = initialScores,
     resources = [\<lparr>res_id = ''a'', res_name = ''First'', res_scores = initialScores\<rparr>,
                  \<lparr>res_id = ''b'', res_name = ''Second'', res_scores = initialScores\<rparr>],
     resourceName = [], localStorage = Map.empty\<rparr>"

definition demoRef :: RefApp where
  "demoRef =
    \<lparr>objects = (\<lambda>a. initialScores), allocated = 1, scoresRef = 0, resourcesRef = [],
     resourceNameRef = ''  My pilot ''\<rparr>"

text \<open>
  What can follow a value in a document: the end, a comma or a closing bracket. Used to
  state that \<open>JSON_parse\<close> reads back what \<open>JSON_stringify\<close> wrote.
\<close>

definition terminated :: "string \<Rightarrow> bool" where
  "terminated r = (r = [] \<or> hd r = CHR '','' \<or> hd r = CHR '']'' \<or> hd r = CHR ''}'')"

text \<open>
  A value as JavaScript can hold it: the keys of an object are different from each other.
\<close>

fun wf_json :: "jsval \<Rightarrow> bool" where
  "wf_json (JArr vs) = (\<forall>v \<in> set vs. wf_json v)"
| "wf_json (JObj kvs) = (distinct (map fst kvs) \<and> (\<forall>kv \<in> set kvs. wf_json (snd kv)))"
| "wf_json v = True"

text \<open>The characters with which a document written by \<open>JSON_stringify\<close> can begin.\<close>

definition opener :: "char \<Rightarrow> bool" where
  "opener c =
    (c \<in> {CHR ''n'', CHR ''t'', CHR ''f'', CHR 0x22, CHR ''['', CHR ''{'', CHR ''-''} \<or> is_digit c)"

section \<open>Properties\<close>

subsection \<open>Classification engine\<close>

lemma quadrantAt_present: "\<exists>q. quadrantAt p yh xh = Some q \<and> q \<noteq> Uncertain"
  by (cases p; cases yh; cases xh)
     (simp_all add: quadrantAt_def QUADRANTS_def HL_def Uncertain_def)

lemma useQuadrant_quadrantAt:
  "\<not> (xv = 3 \<and> yv = 3) \<Longrightarrow> useQuadrant p xv yv = quadrantAt p (yv \<ge> 4) (xv \<ge> 4)"
  by (auto simp add: useQuadrant_def quadrantAt_def Let_def)

lemma quadrantAt_in_catalog:
  "quadrantAt p yh xh = Some q \<Longrightarrow> (key_of p @ ''_'' @ HL yh @ HL xh, q) \<in> set QUADRANTS"
  unfolding quadrantAt_def by (rule map_of_SomeD)

lemma quadrantAt_four: "card ((\<lambda>(yh, xh). quadrantAt p yh xh) ` UNIV) = 4"
proof -
  have u: "(UNIV :: (bool \<times> bool) set) = {(True, True), (True, False), (False, True), (False, False)}"
    by auto
  show ?thesis
    unfolding u
    by (cases p) (simp_all add: quadrantAt_def QUADRANTS_def HL_def)
qed

text \<open>
  The earlier revision (\<^verbatim>\<open>src/App.tsx\<close>) has no special case: two moderate ratings are
  "high" under its threshold 3 and give the entry of both axes high, and no ratings give
  the "Uncertain" result.
\<close>

lemma useQuadrant_v1_moderate: "useQuadrant_v1 p 3 3 = quadrantAt p True True"
  by (simp add: useQuadrant_v1_def quadrantAt_def)

lemma useQuadrant_v1_never_uncertain: "useQuadrant_v1 p xv yv \<noteq> Some Uncertain"
proof -
  obtain q where "quadrantAt p (yv \<ge> 3) (xv \<ge> 3) = Some q" "q \<noteq> Uncertain"
    using quadrantAt_present by blast
  then show ?thesis
    by (simp add: useQuadrant_v1_def quadrantAt_def Let_def)
qed

text \<open>
  Claim C1 as written is about \<^verbatim>\<open>useQuadrant\<close> in both revisions. It fails for the
  earlier one: at (3, 3), the initial ratings, that revision returns "Sweet Spot" for the
  pair RAID, not "Uncertain".
\<close>

theorem useQuadrant_uncertain_iff_counterexample:
  "useQuadrant_v1 RAID 3 3 =
     Some \<lparr>name = ''Sweet Spot'',
           desc = ''Strategic choice: valuable locally and backed by curriculum/system.''\<rparr>
   \<and> \<not> (useQuadrant_v1 RAID 3 3 = Some Uncertain \<longleftrightarrow> (3::int) = 3 \<and> (3::int) = 3)"
  by (simp add: useQuadrant_v1_def QUADRANTS_def HL_def Uncertain_def)

text \<open>
  Claim C1, amended to the boundary-aware revision (threshold 4). For every pair key and
  all ratings from 1 to 5, \<open>useQuadrant\<close> of that revision returns the fixed "Uncertain"
  result exactly when both ratings are 3. The test comes first: at (3, 3) the result is
  not the catalog entry that the threshold comparison would select, and no catalog entry
  equals the "Uncertain" result.
\<close>

theorem useQuadrant_uncertain_iff:
  assumes "1 \<le> xv" "xv \<le> 5" "1 \<le> yv" "yv \<le> 5"
  shows "(useQuadrant p xv yv = Some Uncertain \<longleftrightarrow> xv = 3 \<and> yv = 3)
       \<and> (xv = 3 \<and> yv = 3 \<longrightarrow> useQuadrant p xv yv \<noteq> quadrantAt p (yv \<ge> 4) (xv \<ge> 4))"
proof (cases "xv = 3 \<and> yv = 3")
  case True
  obtain q where "quadrantAt p (yv \<ge> 4) (xv \<ge> 4) = Some q" "q \<noteq> Uncertain"
    using quadrantAt_present by blast
  with True show ?thesis by (auto simp add: useQuadrant_def)
next
  case False
  obtain q where "quadrantAt p (yv \<ge> 4) (xv \<ge> 4) = Some q" "q \<noteq> Uncertain"
    using quadrantAt_present by blast
  with False show ?thesis by (auto simp add: useQuadrant_quadrantAt)
qed

theorem useQuadrant_uncertain_iff_witness:
  "(useQuadrant RAID 3 3 = Some Uncertain \<longleftrightarrow> (3::int) = 3 \<and> (3::int) = 3)
   \<and> (useQuadrant SUCO 3 5 = Some Uncertain \<longleftrightarrow> (3::int) = 3 \<and> (5::int) = 3)
   \<and> useQuadrant RAID 3 3 \<noteq> quadrantAt RAID False False"
  using useQuadrant_uncertain_iff [of 3 3 RAID] useQuadrant_uncertain_iff [of 3 5 SUCO]
  by auto

text \<open>
  Claim C2. For every pair key and all ratings from 1 to 5 that are not both 3,
  \<open>useQuadrant\<close> returns the catalog entry stored under the code built from the pair key,
  the bit of the Y axis and then the bit of the X axis, where a bit is "rating at least 4".
  The result is a function of the two bits only, the entry is present in \<open>QUADRANTS\<close>
  (the lookup does not fail), each pair has exactly four different entries, and the
  catalog has twelve.
\<close>

theorem useQuadrant_lookup:
  assumes "1 \<le> xv" "xv \<le> 5" "1 \<le> yv" "yv \<le> 5" and "\<not> (xv = 3 \<and> yv = 3)"
  shows "useQuadrant p xv yv = quadrantAt p (yv \<ge> 4) (xv \<ge> 4)
       \<and> (\<exists>q. useQuadrant p xv yv = Some q
              \<and> (key_of p @ ''_'' @ HL (yv \<ge> 4) @ HL (xv \<ge> 4), q) \<in> set QUADRANTS)
       \<and> card ((\<lambda>(yh, xh). quadrantAt p yh xh) ` UNIV) = 4
       \<and> length QUADRANTS = 12"
proof -
  have eq: "useQuadrant p xv yv = quadrantAt p (yv \<ge> 4) (xv \<ge> 4)"
    using assms(5) by (rule useQuadrant_quadrantAt)
  obtain q where q: "quadrantAt p (yv \<ge> 4) (xv \<ge> 4) = Some q"
    using quadrantAt_present by blast
  have "(key_of p @ ''_'' @ HL (yv \<ge> 4) @ HL (xv \<ge> 4), q) \<in> set QUADRANTS"
    using q by (rule quadrantAt_in_catalog)
  moreover have "length QUADRANTS = 12"
    by (simp add: QUADRANTS_def)
  ultimately show ?thesis
    using eq q quadrantAt_four by auto
qed

theorem useQuadrant_lookup_witness:
  "useQuadrant RAID 5 5 = Some \<lparr>name = ''Sweet Spot'',
      desc = ''Strategic choice: valuable locally and backed by curriculum/system.''\<rparr>
   \<and> useQuadrant RAID 5 5 = quadrantAt RAID True True"
  using useQuadrant_lookup [of 5 5 RAID]
  by (simp add: quadrantAt_def QUADRANTS_def HL_def)

subsection \<open>Edge coaching\<close>

lemma coach_present: "\<exists>c. map_of MID_EDGE_COACH (key_of p) = Some c"
  by (cases p) (simp_all add: MID_EDGE_COACH_def)

text \<open>
  Claim C3. For every pair key and all ratings from 1 to 5, with threshold 4,
  \<open>getEdgeCoach\<close> takes the first rule that matches: Y moderate and X high, then Y high
  and X moderate, then both moderate, and otherwise \<open>None\<close>. The caller shows the
  advisory when there is one and the description of the quadrant otherwise.
\<close>

theorem getEdgeCoach_rules:
  assumes "1 \<le> xv" "xv \<le> 5" "1 \<le> yv" "yv \<le> 5"
  shows "\<exists>c q. map_of MID_EDGE_COACH (key_of p) = Some c \<and> useQuadrant p xv yv = Some q
    \<and> getEdgeCoach p xv yv 4 =
        (if yv = 3 \<and> xv \<ge> 4 then Some (y3_x4plus c)
         else if yv \<ge> 4 \<and> xv = 3 then Some (y4plus_x3 c)
         else if yv = 3 \<and> xv = 3 then Some (y3_x3 c)
         else None)
    \<and> adviceText p xv yv =
        Some (case getEdgeCoach p xv yv 4 of Some t \<Rightarrow> t | None \<Rightarrow> desc q)"
proof -
  obtain c where c: "map_of MID_EDGE_COACH (key_of p) = Some c"
    using coach_present by blast
  have "\<exists>q. useQuadrant p xv yv = Some q"
  proof (cases "xv = 3 \<and> yv = 3")
    case True
    then show ?thesis by (simp add: useQuadrant_def)
  next
    case False
    then show ?thesis
      using quadrantAt_present [of p "yv \<ge> 4" "xv \<ge> 4"]
      by (auto simp add: useQuadrant_quadrantAt)
  qed
  then obtain q where q: "useQuadrant p xv yv = Some q" ..
  have g: "getEdgeCoach p xv yv 4 =
        (if yv = 3 \<and> xv \<ge> 4 then Some (y3_x4plus c)
         else if yv \<ge> 4 \<and> xv = 3 then Some (y4plus_x3 c)
         else if yv = 3 \<and> xv = 3 then Some (y3_x3 c)
         else None)"
    by (simp add: getEdgeCoach_def c Let_def)
  have a: "adviceText p xv yv =
        Some (case getEdgeCoach p xv yv 4 of Some t \<Rightarrow> t | None \<Rightarrow> desc q)"
    by (simp add: adviceText_def q split: option.split)
  from c q g a show ?thesis by blast
qed

theorem getEdgeCoach_rules_witness:
  "getEdgeCoach RAID 5 3 4 = Some ''Good on paper; strengthen classroom fit with quick adaptations, exemplars, and teacher feedback loops.''
   \<and> getEdgeCoach EFIM 2 3 4 = None
   \<and> adviceText EFIM 2 3 = Some ''Neither achieves goals nor creates wider value.''"
  using getEdgeCoach_rules [of 5 3 RAID] getEdgeCoach_rules [of 2 3 EFIM]
  by (auto simp add: MID_EDGE_COACH_def useQuadrant_def QUADRANTS_def HL_def)



subsection \<open>Plot coordinates\<close>

lemma toPos_cx: "cx (toPos pad w h sx sy) = pad + ((of_int sx - 1) / 4) * w"
  by (simp add: toPos_def)

lemma toPos_cy: "cy (toPos pad w h sx sy) = pad + (1 - (of_int sy - 1) / 4) * h"
  by (simp add: toPos_def)

lemma toPos_11: "toPos pad w h 1 1 = \<lparr>cx = pad, cy = pad + h\<rparr>"
  by (simp add: toPos_def)

lemma toPos_55: "toPos pad w h 5 5 = \<lparr>cx = pad + w, cy = pad\<rparr>"
  by (simp add: toPos_def)

lemma unit_scale:
  fixes t w :: rat
  assumes "0 \<le> t" "t \<le> 1" "0 \<le> w"
  shows "pad \<le> pad + t * w \<and> pad + t * w \<le> pad + w"
proof -
  have "0 \<le> t * w" using assms(1,3) by (rule mult_nonneg_nonneg)
  moreover have "t * w \<le> 1 * w" using assms(2,3) by (rule mult_right_mono)
  ultimately show ?thesis by simp
qed

lemma toPos_inside:
  assumes "1 \<le> sx" "sx \<le> 5" "1 \<le> sy" "sy \<le> 5" and "0 \<le> w" "0 \<le> h"
  shows "pad \<le> cx (toPos pad w h sx sy) \<and> cx (toPos pad w h sx sy) \<le> pad + w
       \<and> pad \<le> cy (toPos pad w h sx sy) \<and> cy (toPos pad w h sx sy) \<le> pad + h"
proof -
  have x: "(0::rat) \<le> (of_int sx - 1) / 4 \<and> (of_int sx - 1) / 4 \<le> (1::rat)"
    using assms(1,2) by simp
  have y: "(0::rat) \<le> 1 - (of_int sy - 1) / 4 \<and> 1 - (of_int sy - 1) / 4 \<le> (1::rat)"
    using assms(3,4) by simp
  show ?thesis
    unfolding toPos_cx toPos_cy
    using unit_scale [of "(of_int sx - 1) / 4" w pad] unit_scale [of "1 - (of_int sy - 1) / 4" h pad]
      x y assms(5,6) by blast
qed

lemma Grid_current: "current (Grid c sx sy pts) = toPos padding (plotW c) (plotH c) sx sy"
  by (simp add: Grid_def)

lemma Grid_saved:
  "saved (Grid c sx sy pts) = map (\<lambda>q. toPos padding (plotW c) (plotH c) (pt_x q) (pt_y q)) pts"
  by (simp add: Grid_def)

text \<open>
  Claim C9. For all ratings from 1 to 5 and all plot dimensions, \<open>toPos\<close> computes
  \<open>cx = padding + ((x - 1) / 4) * plotW\<close> and \<open>cy = padding + (1 - (y - 1) / 4) * plotH\<close>;
  (1, 1) is the bottom-left corner of the plot and (5, 5) the top-right one, every rating
  pair lies inside the plot, and \<open>Grid\<close> places the current point and every saved point
  with this one function.
\<close>

theorem toPos_corners:
  assumes "1 \<le> sx" "sx \<le> 5" "1 \<le> sy" "sy \<le> 5" and "0 \<le> w" "0 \<le> h"
  shows "cx (toPos pad w h sx sy) = pad + ((of_int sx - 1) / 4) * w
       \<and> cy (toPos pad w h sx sy) = pad + (1 - (of_int sy - 1) / 4) * h
       \<and> toPos pad w h 1 1 = \<lparr>cx = pad, cy = pad + h\<rparr>
       \<and> toPos pad w h 5 5 = \<lparr>cx = pad + w, cy = pad\<rparr>
       \<and> pad \<le> cx (toPos pad w h sx sy) \<and> cx (toPos pad w h sx sy) \<le> pad + w
       \<and> pad \<le> cy (toPos pad w h sx sy) \<and> cy (toPos pad w h sx sy) \<le> pad + h
       \<and> current (Grid c sx sy pts) = toPos padding (plotW c) (plotH c) sx sy
       \<and> saved (Grid c sx sy pts)
           = map (\<lambda>q. toPos padding (plotW c) (plotH c) (pt_x q) (pt_y q)) pts"
  using toPos_cx [of pad w h sx sy] toPos_cy [of pad w h sx sy] toPos_11 [of pad w h]
    toPos_55 [of pad w h] toPos_inside [OF assms, of pad] Grid_current [of c sx sy pts]
    Grid_saved [of c sx sy pts]
  by blast


lemma plot_dims: "plotW False = 252" "plotH False = 252" "plotW True = 172" "plotH True = 172"
  by (simp_all add: plotW_def plotH_def size_of_def padding_def)

theorem toPos_corners_witness:
  "toPos padding (plotW False) (plotH False) 1 1 = \<lparr>cx = 24, cy = 276\<rparr>
   \<and> toPos padding (plotW False) (plotH False) 5 5 = \<lparr>cx = 276, cy = 24\<rparr>
   \<and> cx (toPos padding (plotW True) (plotH True) 2 4) = 67
   \<and> cy (toPos padding (plotW True) (plotH True) 2 4) = 67
   \<and> saved (Grid True 1 1 [\<lparr>pt_x = 2, pt_y = 4\<rparr>]) = [\<lparr>cx = 67, cy = 67\<rparr>]"
proof -
  have w: "(0::rat) \<le> plotW False" "(0::rat) \<le> plotH False" "(0::rat) \<le> plotW True" "(0::rat) \<le> plotH True"
    by (simp_all add: plot_dims)
  have a: "toPos padding (plotW False) (plotH False) 1 1 = \<lparr>cx = 24, cy = 276\<rparr>
    \<and> toPos padding (plotW False) (plotH False) 5 5 = \<lparr>cx = 276, cy = 24\<rparr>"
    using toPos_corners [OF _ _ _ _ w(1) w(2), of 1 1 padding False "[]"]
    by (simp add: plot_dims padding_def)
  have b: "cx (toPos padding (plotW True) (plotH True) 2 4) = 67
    \<and> cy (toPos padding (plotW True) (plotH True) 2 4) = 67"
    using toPos_corners [OF _ _ _ _ w(3) w(4), of 2 4 padding True "[]"]
    by (simp add: plot_dims padding_def)
  have c: "saved (Grid True 1 1 [\<lparr>pt_x = 2, pt_y = 4\<rparr>])
      = [toPos padding (plotW True) (plotH True) 2 4]"
    using toPos_corners [OF _ _ _ _ w(3) w(4), of 1 1 padding True "[\<lparr>pt_x = 2, pt_y = 4\<rparr>]"]
    by simp
  have d: "toPos padding (plotW True) (plotH True) 2 4 = \<lparr>cx = 67, cy = 67\<rparr>"
    by (simp add: toPos_def plot_dims padding_def)
  show ?thesis using a b c d by simp
qed

subsection \<open>Evidence Gate\<close>

lemma map_of_setScore: "map_of (setScore k n s) = (map_of s)(k \<mapsto> n)"
  by (simp add: setScore_def update_conv')

text \<open>
  Claim C10. For all ratings from 1 to 5 the Evidence Gate flag is "x is 3 or y is 3", in
  the summary card, in the tab badge and inside \<open>Grid\<close>. It is a function of the current
  ratings: after a slider sets the X rating, the flag is that of the new rating.
\<close>

theorem gateActive_derived:
  assumes "1 \<le> xv" "xv \<le> 5" "1 \<le> yv" "yv \<le> 5"
      and "map_of sc (pair_x p) = Some xv" and "map_of sc (pair_y p) = Some yv"
  shows "App_gateActive sc p = (xv = 3 \<or> yv = 3)
       \<and> Tab_gateActive sc p = (xv = 3 \<or> yv = 3)
       \<and> gate_ring (Grid c xv yv pts) = (xv = 3 \<or> yv = 3)
       \<and> (pair_x p \<noteq> pair_y p \<longrightarrow>
            App_gateActive (setScore (pair_x p) n sc) p = (n = 3 \<or> yv = 3))"
  using assms(5,6)
  by (simp add: App_gateActive_def Tab_gateActive_def Grid_def Grid_gateActive_def disj_commute
        map_of_setScore)

lemma PAIRS_0: "pair_x (PAIRS ! 0) = ''Alignment''" "pair_y (PAIRS ! 0) = ''Relevance''"
  by (simp_all add: PAIRS_def)

theorem gateActive_derived_witness:
  "App_gateActive initialScores (PAIRS ! 0)
   \<and> \<not> App_gateActive (setScore ''Alignment'' 5 (setScore ''Relevance'' 4 initialScores)) (PAIRS ! 0)
   \<and> App_gateActive (setScore ''Alignment'' 3 (setScore ''Alignment'' 5 (setScore ''Relevance'' 4 initialScores))) (PAIRS ! 0)
   \<and> gate_ring (Grid False 3 3 [])
   \<and> \<not> gate_ring (Grid False 5 4 [])"
proof -
  have a: "map_of initialScores (pair_x (PAIRS ! 0)) = Some 3"
    by (simp add: PAIRS_0 initialScores_def)
  have b: "map_of initialScores (pair_y (PAIRS ! 0)) = Some 3"
    by (simp add: PAIRS_0 initialScores_def)
  have c: "map_of (setScore ''Alignment'' 5 (setScore ''Relevance'' 4 initialScores)) (pair_x (PAIRS ! 0)) = Some 5"
    by (simp add: PAIRS_0 initialScores_def setScore_def)
  have d: "map_of (setScore ''Alignment'' 5 (setScore ''Relevance'' 4 initialScores)) (pair_y (PAIRS ! 0)) = Some 4"
    by (simp add: PAIRS_0 initialScores_def setScore_def)
  have ne: "pair_x (PAIRS ! 0) \<noteq> pair_y (PAIRS ! 0)" by (simp add: PAIRS_0)
  show ?thesis
    using gateActive_derived [OF _ _ _ _ a b, of False "[]" 3]
      gateActive_derived [OF _ _ _ _ c d, of False "[]" 3] ne
    by (simp add: PAIRS_0)
qed



subsection \<open>Reading back what \<open>JSON_stringify\<close> wrote\<close>


paragraph \<open>Decimal numerals\<close>

lemma below_ten: "d < 10 \<Longrightarrow> d \<in> {0, 1, 2, 3, 4, 5, 6, 7, 8, 9 :: nat}"
  by (simp, arith)

lemma of_char_digit_char: "d < 10 \<Longrightarrow> (of_char (digit_char d) :: nat) = 48 + d"
  using below_ten [of d] by (auto simp add: digit_char_def)

lemma is_digit_digit_char: "d < 10 \<Longrightarrow> is_digit (digit_char d)"
  by (simp add: is_digit_def of_char_digit_char)

lemma digit_val_digit_char: "d < 10 \<Longrightarrow> digit_val (digit_char d) = d"
  by (simp add: digit_val_def of_char_digit_char)

lemma digit_char_zero: "d < 10 \<Longrightarrow> digit_char d = CHR ''0'' \<longleftrightarrow> d = 0"
proof
  assume d: "d < 10" and "digit_char d = CHR ''0''"
  then have "(of_char (digit_char d) :: nat) = of_char CHR ''0''" by simp
  with d show "d = 0" by (simp add: of_char_digit_char)
next
  assume "d = 0"
  then show "digit_char d = CHR ''0''" by (simp add: digit_char_def)
qed

lemma decimal_digits: "c \<in> set (decimal n) \<Longrightarrow> is_digit c"
proof (induction n arbitrary: c rule: decimal.induct)
  case (1 n)
  show ?case
  proof (cases "n < 10")
    case True
    with "1.prems" show ?thesis
      by (simp add: decimal.simps [of n] is_digit_digit_char)
  next
    case False
    with "1.prems" "1.IH" show ?thesis
      by (auto simp add: decimal.simps [of n] is_digit_digit_char)
  qed
qed

lemma decimal_nonempty: "decimal n \<noteq> []"
  by (simp add: decimal.simps [of n])

lemma number_of_snoc: "number_of (ds @ [c]) = 10 * number_of ds + digit_val c"
  by (simp add: number_of_def)

lemma number_of_decimal: "number_of (decimal n) = n"
proof (induction n rule: decimal.induct)
  case (1 n)
  show ?case
  proof (cases "n < 10")
    case True
    then show ?thesis
      by (simp add: decimal.simps [of n] number_of_def digit_val_digit_char)
  next
    case False
    then have "number_of (decimal n) = 10 * (n div 10) + n mod 10"
      using "1.IH" by (simp add: decimal.simps [of n] number_of_snoc digit_val_digit_char)
    then show ?thesis by simp
  qed
qed

lemma hd_decimal_zero: "hd (decimal n) = CHR ''0'' \<Longrightarrow> n = 0"
proof (induction n rule: decimal.induct)
  case (1 n)
  show ?case
  proof (cases "n < 10")
    case True
    with "1.prems" show ?thesis
      by (simp add: decimal.simps [of n] digit_char_zero)
  next
    case False
    then have "hd (decimal n) = hd (decimal (n div 10))"
      by (simp add: decimal.simps [of n] decimal_nonempty)
    with "1.prems" "1.IH" False have "n div 10 = 0" by simp
    with False show ?thesis by simp
  qed
qed

lemma decimal_no_leading_zero: "\<not> (1 < length (decimal n) \<and> hd (decimal n) = CHR ''0'')"
proof
  assume a: "1 < length (decimal n) \<and> hd (decimal n) = CHR ''0''"
  then have "n = 0" using hd_decimal_zero by blast
  with a show False by (simp add: decimal.simps [of 0])
qed

lemma hd_decimal_digit: "is_digit (hd (decimal n))"
  using decimal_digits [of "hd (decimal n)" n] decimal_nonempty [of n] by simp

lemma takeWhile_digits:
  assumes "\<forall>c \<in> set ds. is_digit c" and "r = [] \<or> \<not> is_digit (hd r)"
  shows "takeWhile is_digit (ds @ r) = ds \<and> dropWhile is_digit (ds @ r) = r"
proof -
  have "takeWhile is_digit r = [] \<and> dropWhile is_digit r = r"
    using assms(2) by (cases r) auto
  with assms(1) show ?thesis
    by (simp add: takeWhile_append2 dropWhile_append2)
qed

lemma terminated_cases:
  "terminated r \<Longrightarrow> (r = [] \<or> \<not> is_digit (hd r)) \<and>
     \<not> (r \<noteq> [] \<and> (hd r = CHR ''.'' \<or> hd r = CHR ''e'' \<or> hd r = CHR ''E''))"
  by (auto simp add: terminated_def is_digit_def)

lemma parse_number_String_int:
  assumes "terminated r"
  shows "parse_number (String_int i @ r) = Some (JNum i, r)"
proof (cases "i < 0")
  case True
  let ?ds = "decimal (nat (- i))"
  have s: "String_int i @ r = CHR ''-'' # ?ds @ r"
    using True by (simp add: String_int_def)
  have tw: "takeWhile is_digit (?ds @ r) = ?ds \<and> dropWhile is_digit (?ds @ r) = r"
    using takeWhile_digits [of ?ds r] decimal_digits terminated_cases [OF assms] by blast
  show ?thesis
    unfolding s parse_number_def
    using True tw terminated_cases [OF assms] decimal_nonempty [of "nat (- i)"]
      decimal_no_leading_zero [of "nat (- i)"]
    by (simp add: Let_def number_of_decimal)
next
  case False
  let ?ds = "decimal (nat i)"
  have s: "String_int i @ r = ?ds @ r"
    using False by (simp add: String_int_def)
  have "is_digit (hd ?ds)" by (rule hd_decimal_digit)
  then have nm: "hd (?ds @ r) \<noteq> CHR ''-''"
    using decimal_nonempty [of "nat i"] by (auto simp add: is_digit_def)
  have tw: "takeWhile is_digit (?ds @ r) = ?ds \<and> dropWhile is_digit (?ds @ r) = r"
    using takeWhile_digits [of ?ds r] decimal_digits terminated_cases [OF assms] by blast
  show ?thesis
    unfolding s parse_number_def
    using False tw nm terminated_cases [OF assms] decimal_nonempty [of "nat i"]
      decimal_no_leading_zero [of "nat i"]
    by (simp add: Let_def number_of_decimal)
qed

paragraph \<open>Strings\<close>

lemma below_sixteen:
  "d < 16 \<Longrightarrow> d \<in> {0, 1, 2, 3, 4, 5, 6, 7, 8, 9, 10, 11, 12, 13, 14, 15 :: nat}"
  by (simp, arith)

lemma hex_val_hex_char: "d < 16 \<Longrightarrow> hex_val (hex_char d) = Some d"
  using below_sixteen [of d] by (auto simp add: hex_val_def hex_char_def Let_def)

lemma unicode_escape_control:
  assumes "(of_char c :: nat) < 32"
  shows "unicode_escape (CHR ''0'') (CHR ''0'') (hex_char (of_char c div 16)) (hex_char (of_char c mod 16))
         = Some [c]"
proof -
  let ?n = "of_char c :: nat"
  have a: "hex_val (CHR ''0'') = Some 0" by (simp add: hex_val_def)
  have b: "hex_val (hex_char (?n div 16)) = Some (?n div 16)"
    using assms by (intro hex_val_hex_char) simp
  have c: "hex_val (hex_char (?n mod 16)) = Some (?n mod 16)"
    by (intro hex_val_hex_char) simp
  have "utf8 ?n = Some [c]" using assms by (simp add: utf8_def)
  then show ?thesis by (simp add: unicode_escape_def a b c)
qed

lemma parse_chars_escape_char:
  "parse_chars (escape_char c @ t) =
     (case parse_chars t of None \<Rightarrow> None | Some (r, rest) \<Rightarrow> Some (c # r, rest))"
proof -
  consider (q) "c = CHR 0x22" | (bs) "c = CHR 0x5C" | (b) "c = CHR 0x08" | (f) "c = CHR 0x0C"
    | (n) "c = CHR 0x0A" | (r) "c = CHR 0x0D" | (t) "c = CHR 0x09"
    | (u) "c \<notin> {CHR 0x22, CHR 0x5C, CHR 0x08, CHR 0x0C, CHR 0x0A, CHR 0x0D, CHR 0x09}" "(of_char c :: nat) < 32"
    | (plain) "c \<noteq> CHR 0x22" "c \<noteq> CHR 0x5C" "\<not> (of_char c :: nat) < 32"
    by auto
  then show ?thesis
  proof cases
    case u
    then have e: "escape_char c = [CHR 0x5C, CHR ''u'', CHR ''0'', CHR ''0'',
        hex_char (of_char c div 16), hex_char (of_char c mod 16)]"
      by (simp add: escape_char_def)
    show ?thesis
      unfolding e using unicode_escape_control [OF u(2)]
      by (simp split: option.split)
  next
    case plain
    then have e: "escape_char c = [c]"
      by (auto simp add: escape_char_def)
    show ?thesis
      unfolding e using plain by (simp split: option.split)
  qed (simp_all add: escape_char_def unescape_def split: option.split)
qed

lemma parse_chars_quote_body:
  "parse_chars (concat (map escape_char s) @ CHR 0x22 # rest) = Some (s, rest)"
  by (induction s) (simp_all add: parse_chars_escape_char del: parse_chars.simps(2), simp)

paragraph \<open>Documents\<close>

lemma update_fresh_key: "k \<notin> fst ` set al \<Longrightarrow> AList.update k v al = al @ [(k, v)]"
  by (induction al) auto

lemma foldl_update_distinct:
  "distinct (map fst kvs) \<Longrightarrow> fst ` set kvs \<inter> fst ` set acc = {} \<Longrightarrow>
   foldl (\<lambda>acc kv. AList.update (fst kv) (snd kv) acc) acc kvs = acc @ kvs"
proof (induction kvs arbitrary: acc)
  case Nil
  then show ?case by simp
next
  case (Cons kv kvs)
  have k: "fst kv \<notin> fst ` set acc" using Cons.prems(2) by auto
  have d: "distinct (map fst kvs)" using Cons.prems(1) by simp
  have i: "fst ` set kvs \<inter> fst ` set (acc @ [kv]) = {}"
    using Cons.prems by auto
  show ?case
    using Cons.IH [OF d i] by (simp add: update_fresh_key [OF k])
qed

lemma object_of_distinct: "distinct (map fst kvs) \<Longrightarrow> object_of kvs = JObj kvs"
  using foldl_update_distinct [of kvs "[]"] by (simp add: object_of_def)

lemma skip_ws_head: "\<not> is_ws c \<Longrightarrow> skip_ws (c # s) = c # s"
  by (simp add: skip_ws_def)

lemma String_int_head:
  "\<exists>c cs. String_int i = c # cs \<and> (c = CHR ''-'' \<or> is_digit c)"
proof (cases "i < 0")
  case True
  then show ?thesis by (simp add: String_int_def)
next
  case False
  obtain c cs where d: "decimal (nat i) = c # cs"
    using decimal_nonempty [of "nat i"] by (cases "decimal (nat i)") auto
  then have "is_digit c" using hd_decimal_digit [of "nat i"] by simp
  with d False show ?thesis by (simp add: String_int_def)
qed

lemma opener_facts:
  "opener c \<Longrightarrow> \<not> is_ws c \<and> c \<noteq> CHR '']'' \<and> c \<noteq> CHR ''}''"
  by (auto simp add: opener_def is_ws_def is_digit_def)

lemma stringify_head: "\<exists>c cs. JSON_stringify v = c # cs \<and> opener c"
proof (cases v)
  case (JNum i)
  then show ?thesis using String_int_head [of i] by (auto simp add: opener_def)
qed (auto simp add: opener_def quote_def)

lemma parse_value_open:
  assumes "opener c"
  shows "parse_value (Suc n) (c # s) =
    (if c = CHR ''{'' then
           (if skip_ws s \<noteq> [] \<and> hd (skip_ws s) = CHR ''}'' then Some (JObj [], tl (skip_ws s))
            else (case parse_members n s of
                    None \<Rightarrow> None
                  | Some (kvs, r') \<Rightarrow> Some (object_of kvs, r')))
         else if c = CHR ''['' then
           (if skip_ws s \<noteq> [] \<and> hd (skip_ws s) = CHR '']'' then Some (JArr [], tl (skip_ws s))
            else (case parse_elems n s of
                    None \<Rightarrow> None
                  | Some (vs, r') \<Rightarrow> Some (JArr vs, r')))
         else if c = CHR 0x22 then
           (case parse_chars s of
              None \<Rightarrow> None
            | Some (str, r') \<Rightarrow> Some (JStr str, r'))
         else if c = CHR ''-'' \<or> is_digit c then parse_number (c # s)
         else parse_literal (c # s))"
  using opener_facts [OF assms] by (simp add: skip_ws_head)

lemma join_comma_head:
  assumes "xs \<noteq> []" and "\<forall>x \<in> set xs. \<exists>c cs. x = c # cs \<and> opener c"
  shows "\<exists>c cs. join_comma xs = c # cs \<and> opener c"
proof (cases xs)
  case Nil
  with assms(1) show ?thesis by simp
next
  case (Cons x ys)
  then obtain c cs where "x = c # cs" "opener c" using assms(2) by auto
  with Cons show ?thesis by (cases ys) auto
qed

lemma parse_elems_join:
  assumes IH: "\<And>v n r. v \<in> set vs \<Longrightarrow> length (JSON_stringify v) < n \<Longrightarrow> terminated r \<Longrightarrow>
                 parse_value n (JSON_stringify v @ r) = Some (v, r)"
    and "vs \<noteq> []"
    and "length (join_comma (map JSON_stringify vs)) + 1 < n"
  shows "parse_elems n (join_comma (map JSON_stringify vs) @ CHR '']'' # r) = Some (vs, r)"
  using assms
proof (induction vs arbitrary: n)
  case Nil
  then show ?case by simp
next
  case (Cons v ws)
  obtain m where n: "n = Suc m" using Cons.prems(3) by (cases n) auto
  show ?case
  proof (cases ws)
    case Nil
    have len: "length (JSON_stringify v) < m"
      using Cons.prems(3) n Nil by simp
    have t: "terminated (CHR '']'' # r)" by (simp add: terminated_def)
    have pv: "parse_value m (JSON_stringify v @ CHR '']'' # r) = Some (v, CHR '']'' # r)"
      using Cons.prems(1) [OF _ len t] by simp
    show ?thesis
      unfolding n using Nil pv by (simp add: skip_ws_head is_ws_def)
  next
    case (Cons w ws')
    let ?rest = "join_comma (map JSON_stringify ws) @ CHR '']'' # r"
    have j: "join_comma (map JSON_stringify (v # ws)) @ CHR '']'' # r
               = JSON_stringify v @ CHR '','' # ?rest"
      using Cons by simp
    have l: "length (join_comma (map JSON_stringify (v # ws)))
               = length (JSON_stringify v) + 1 + length (join_comma (map JSON_stringify ws))"
      using Cons by simp
    have len: "length (JSON_stringify v) < m"
      using Cons.prems(3) n l by simp
    have len': "length (join_comma (map JSON_stringify ws)) + 1 < m"
      using \<open>length (join_comma (map JSON_stringify (v # ws))) + 1 < n\<close> n l by simp
    have t: "terminated (CHR '','' # ?rest)" by (simp add: terminated_def)
    have pv: "parse_value m (JSON_stringify v @ CHR '','' # ?rest) = Some (v, CHR '','' # ?rest)"
      using \<open>\<And>va n r. \<lbrakk>va \<in> set (v # ws); length (JSON_stringify va) < n; terminated r\<rbrakk>
           \<Longrightarrow> parse_value n (JSON_stringify va @ r) = Some (va, r)\<close> [OF _ len t] by simp
    have pe: "parse_elems m ?rest = Some (ws, r)"
    proof (rule Cons.IH)
      show "ws \<noteq> []" using Cons by simp
      show "length (join_comma (map JSON_stringify ws)) + 1 < m" by (rule len')
      fix u k s
      assume "u \<in> set ws" "length (JSON_stringify u) < k" "terminated s"
      then show "parse_value k (JSON_stringify u @ s) = Some (u, s)"
        using Cons.prems(1) [of u k s] by simp
    qed
    show ?thesis
      unfolding n j using pv pe by (simp add: skip_ws_head is_ws_def)
  qed
qed

lemma parse_members_join:
  assumes IH: "\<And>kv n r. kv \<in> set kvs \<Longrightarrow> length (JSON_stringify (snd kv)) < n \<Longrightarrow> terminated r \<Longrightarrow>
                 parse_value n (JSON_stringify (snd kv) @ r) = Some (snd kv, r)"
    and "kvs \<noteq> []"
    and "length (join_comma (map (\<lambda>kv. quote (fst kv) @ CHR '':'' # JSON_stringify (snd kv)) kvs)) + 1 < n"
  shows "parse_members n
           (join_comma (map (\<lambda>kv. quote (fst kv) @ CHR '':'' # JSON_stringify (snd kv)) kvs)
              @ CHR ''}'' # r) = Some (kvs, r)"
  using assms
proof (induction kvs arbitrary: n)
  case Nil
  then show ?case by simp
next
  case (Cons kv rest)
  let ?mem = "\<lambda>kv. quote (fst kv) @ CHR '':'' # JSON_stringify (snd kv)"
  obtain m where n: "n = Suc m" using Cons.prems(3) by (cases n) auto
  obtain k v where kv: "kv = (k, v)" by (cases kv)
  have q: "\<And>t. ?mem kv @ t = CHR 0x22 # concat (map escape_char k) @ CHR 0x22 # CHR '':'' # JSON_stringify v @ t"
    by (simp add: kv quote_def)
  have lm: "length (JSON_stringify v) < length (?mem kv)"
    by (simp add: kv quote_def)
  have ih_kv: "\<And>n r. length (JSON_stringify v) < n \<Longrightarrow> terminated r \<Longrightarrow>
                 parse_value n (JSON_stringify v @ r) = Some (v, r)"
    using Cons.prems(1) [of kv] by (simp add: kv)
  show ?case
  proof (cases rest)
    case Nil
    have len: "length (JSON_stringify v) < m"
      using Cons.prems(3) n Nil lm by simp
    have t: "terminated (CHR ''}'' # r)" by (simp add: terminated_def)
    have pv: "parse_value m (JSON_stringify v @ CHR ''}'' # r) = Some (v, CHR ''}'' # r)"
      using ih_kv [OF len t] .
    have j: "join_comma (map ?mem (kv # rest)) @ CHR ''}'' # r
              = CHR 0x22 # concat (map escape_char k) @ CHR 0x22 # CHR '':'' # JSON_stringify v @ CHR ''}'' # r"
      using Nil q [of "CHR ''}'' # r"] by simp
    show ?thesis
      unfolding n j using pv Nil
      by (simp add: skip_ws_head is_ws_def parse_chars_quote_body kv del: parse_chars.simps)
  next
    case (Cons kv' rest')
    let ?tail = "join_comma (map ?mem rest) @ CHR ''}'' # r"
    have j: "join_comma (map ?mem (kv # rest)) @ CHR ''}'' # r
              = CHR 0x22 # concat (map escape_char k) @ CHR 0x22 # CHR '':'' # JSON_stringify v @ CHR '','' # ?tail"
      using Cons q [of "CHR '','' # ?tail"] by simp
    have l: "length (join_comma (map ?mem (kv # rest)))
               = length (?mem kv) + 1 + length (join_comma (map ?mem rest))"
      using Cons by simp
    have len: "length (JSON_stringify v) < m"
      using \<open>length (join_comma (map ?mem (kv # rest))) + 1 < n\<close> n l lm by simp
    have len': "length (join_comma (map ?mem rest)) + 1 < m"
      using \<open>length (join_comma (map ?mem (kv # rest))) + 1 < n\<close> n l by simp
    have t: "terminated (CHR '','' # ?tail)" by (simp add: terminated_def)
    have pv: "parse_value m (JSON_stringify v @ CHR '','' # ?tail) = Some (v, CHR '','' # ?tail)"
      using ih_kv [OF len t] .
    have pm: "parse_members m ?tail = Some (rest, r)"
    proof (rule Cons.IH)
      show "rest \<noteq> []" using Cons by simp
      show "length (join_comma (map ?mem rest)) + 1 < m" by (rule len')
      fix u i s
      assume "u \<in> set rest" "length (JSON_stringify (snd u)) < i" "terminated s"
      then show "parse_value i (JSON_stringify (snd u) @ s) = Some (snd u, s)"
        using \<open>\<And>kva n r. \<lbrakk>kva \<in> set (kv # rest); length (JSON_stringify (snd kva)) < n; terminated r\<rbrakk>
           \<Longrightarrow> parse_value n (JSON_stringify (snd kva) @ r) = Some (snd kva, r)\<close> [of u i s] by simp
    qed
    show ?thesis
      unfolding n j using pv pm
      by (simp add: skip_ws_head is_ws_def parse_chars_quote_body kv del: parse_chars.simps)
  qed
qed

lemma parse_value_stringify:
  "wf_json v \<Longrightarrow> length (JSON_stringify v) < n \<Longrightarrow> terminated r \<Longrightarrow>
   parse_value n (JSON_stringify v @ r) = Some (v, r)"
proof (induction v arbitrary: n r)
  case JNull
  then obtain m where "n = Suc m" by (cases n) auto
  then show ?case
    by (simp add: skip_ws_head is_ws_def is_digit_def parse_literal_def)
next
  case (JBool b)
  then obtain m where "n = Suc m" by (cases n) auto
  then show ?case
    by (cases b) (simp_all add: skip_ws_head is_ws_def is_digit_def parse_literal_def)
next
  case (JNum i)
  then obtain m where n: "n = Suc m" by (cases n) auto
  obtain c cs where s: "String_int i = c # cs" and c: "c = CHR ''-'' \<or> is_digit c"
    using String_int_head by blast
  have o: "opener c" using c by (auto simp add: opener_def)
  have "parse_value (Suc m) (c # (cs @ r)) = parse_number (c # (cs @ r))"
    unfolding parse_value_open [OF o] using c by (auto simp add: is_digit_def)
  moreover have "parse_number (c # (cs @ r)) = Some (JNum i, r)"
    using parse_number_String_int [OF JNum.prems(3), of i] s by simp
  ultimately show ?case by (simp add: n s)
next
  case (JStr str)
  then obtain m where n: "n = Suc m" by (cases n) auto
  have "JSON_stringify (JStr str) @ r = CHR 0x22 # (concat (map escape_char str) @ CHR 0x22 # r)"
    by (simp add: quote_def)
  then show ?case
    by (simp add: n skip_ws_head is_ws_def parse_chars_quote_body del: parse_chars.simps)
next
  case (JArr vs)
  then obtain m where n: "n = Suc m" by (cases n) auto
  have o: "opener (CHR ''['')" by (simp add: opener_def)
  let ?body = "join_comma (map JSON_stringify vs)"
  have s: "JSON_stringify (JArr vs) @ r = CHR ''['' # (?body @ CHR '']'' # r)" by simp
  show ?case
  proof (cases "vs = []")
    case True
    then show ?thesis
      unfolding s n parse_value_open [OF o] by (simp add: skip_ws_head is_ws_def)
  next
    case False
    have "\<forall>x \<in> set (map JSON_stringify vs). \<exists>c cs. x = c # cs \<and> opener c"
      using stringify_head by auto
    then obtain c cs where h: "?body = c # cs" and oc: "opener c"
      using join_comma_head [of "map JSON_stringify vs"] False by auto
    have sk: "skip_ws (?body @ CHR '']'' # r) = ?body @ CHR '']'' # r" and nb: "c \<noteq> CHR '']''"
      using opener_facts [OF oc] by (simp_all add: h skip_ws_head)
    have len: "length ?body + 1 < m" using JArr.prems(2) n by simp
    have pe: "parse_elems m (?body @ CHR '']'' # r) = Some (vs, r)"
    proof (rule parse_elems_join [OF _ False len])
      fix v k t
      assume "v \<in> set vs" "length (JSON_stringify v) < k" "terminated t"
      then show "parse_value k (JSON_stringify v @ t) = Some (v, t)"
        using JArr.IH [of v k t] JArr.prems(1) by simp
    qed
    have hb: "hd (?body @ CHR '']'' # r) \<noteq> CHR '']''"
      using nb by (simp add: h)
    show ?thesis
      unfolding s n parse_value_open [OF o] using hb pe by (simp add: sk)
  qed
next
  case (JObj kvs)
  then obtain m where n: "n = Suc m" by (cases n) auto
  have o: "opener (CHR ''{'')" by (simp add: opener_def)
  let ?mem = "\<lambda>kv. quote (fst kv) @ CHR '':'' # JSON_stringify (snd kv)"
  let ?body = "join_comma (map ?mem kvs)"
  have s: "JSON_stringify (JObj kvs) @ r = CHR ''{'' # (?body @ CHR ''}'' # r)" by simp
  have d: "distinct (map fst kvs)" using JObj.prems(1) by simp
  show ?case
  proof (cases "kvs = []")
    case True
    then show ?thesis
      unfolding s n parse_value_open [OF o] by (simp add: skip_ws_head is_ws_def)
  next
    case False
    have "\<forall>x \<in> set (map ?mem kvs). \<exists>c cs. x = c # cs \<and> opener c"
      by (auto simp add: quote_def opener_def)
    then obtain c cs where h: "?body = c # cs" and oc: "opener c"
      using join_comma_head [of "map ?mem kvs"] False by auto
    have sk: "skip_ws (?body @ CHR ''}'' # r) = ?body @ CHR ''}'' # r" and nb: "c \<noteq> CHR ''}''"
      using opener_facts [OF oc] by (simp_all add: h skip_ws_head)
    have len: "length ?body + 1 < m" using JObj.prems(2) n by simp
    have pm: "parse_members m (?body @ CHR ''}'' # r) = Some (kvs, r)"
    proof (rule parse_members_join [OF _ False len])
      fix kv k t
      assume a: "kv \<in> set kvs" "length (JSON_stringify (snd kv)) < k" "terminated t"
      have "snd kv \<in> Basic_BNFs.snds kv" by (cases kv) simp
      moreover have "wf_json (snd kv)" using JObj.prems(1) a(1) by simp
      ultimately show "parse_value k (JSON_stringify (snd kv) @ t) = Some (snd kv, t)"
        using JObj.IH [of kv "snd kv" k t] a by simp
    qed
    have hb: "hd (?body @ CHR ''}'' # r) \<noteq> CHR ''}''"
      using nb by (simp add: h)
    show ?thesis
      unfolding s n parse_value_open [OF o] using hb pm by (simp add: sk object_of_distinct [OF d])
  qed
qed

lemma JSON_parse_stringify: "wf_json v \<Longrightarrow> JSON_parse (JSON_stringify v) = Some v"
proof -
  assume w: "wf_json v"
  have t: "terminated []" by (simp add: terminated_def)
  have l: "length (JSON_stringify v) < 2 * length (JSON_stringify v) + 2" by simp
  have "parse_value (2 * length (JSON_stringify v) + 2) (JSON_stringify v @ []) = Some (v, [])"
    using w l t by (rule parse_value_stringify)
  then show ?thesis by (simp add: JSON_parse_def skip_ws_def)
qed



subsection \<open>The resource store\<close>

lemma dec_entries_enc: "dec_entries (map (\<lambda>kn. (fst kn, JNum (snd kn))) s) = Some s"
  by (induction s) auto

lemma dec_resource_enc: "dec_resource (enc_resource r) = Some r"
  by (simp add: dec_resource_def enc_resource_def enc_scores_def dec_entries_enc)

lemma as_resources_enc: "as_resources (enc_resources rs) = Some rs"
  by (induction rs) (simp_all add: as_resources_def enc_resources_def dec_resource_enc)

lemma wf_json_enc_scores: "distinct (map fst s) \<Longrightarrow> wf_json (enc_scores s)"
  by (simp add: enc_scores_def comp_def)

lemma wf_json_enc_resource:
  "distinct (map fst (res_scores r)) \<Longrightarrow> wf_json (enc_resource r)"
  by (simp add: enc_resource_def wf_json_enc_scores)

lemma wf_json_enc_resources:
  "\<forall>r \<in> set rs. distinct (map fst (res_scores r)) \<Longrightarrow> wf_json (enc_resources rs)"
  by (simp add: enc_resources_def wf_json_enc_resource)

lemma stringify_nonempty: "JSON_stringify v \<noteq> []"
  using stringify_head [of v] by auto

lemma load_written:
  assumes "\<forall>r \<in> set rs. distinct (map fst (res_scores r))"
    and "ls ''resourcesV1'' = Some (JSON_stringify (enc_resources rs))"
  shows "load ls = enc_resources rs"
  using JSON_parse_stringify [OF wf_json_enc_resources [OF assms(1)]] assms(2)
  by (simp add: load_def stringify_nonempty)

lemma JSON_parse_empty_array: "JSON_parse ''[]'' = Some (JArr [])"
  using JSON_parse_stringify [of "JArr []"] by simp

lemma load_missing: "ls ''resourcesV1'' = None \<Longrightarrow> load ls = JArr []"
  by (simp add: load_def JSON_parse_empty_array)

lemma load_corrupt:
  "ls ''resourcesV1'' = Some b \<Longrightarrow> JSON_parse b = None \<Longrightarrow> load ls = JArr []"
  by (simp add: load_def JSON_parse_empty_array)

lemma saveAll_fields:
  "resources (saveAll next st) = next"
  "localStorage (saveAll next st) = (localStorage st)(''resourcesV1'' \<mapsto> JSON_stringify (enc_resources next))"
  "scores (saveAll next st) = scores st"
  "resourceName (saveAll next st) = resourceName st"
  by (simp_all add: saveAll_def)

lemma saveCurrentResource_fields:
  "resources (saveCurrentResource env st) = resources st @ [savedEntry env st]"
  "localStorage (saveCurrentResource env st) =
     (localStorage st)(''resourcesV1'' \<mapsto>
        JSON_stringify (enc_resources (resources st @ [savedEntry env st])))"
  "scores (saveCurrentResource env st) = scores st"
  "resourceName (saveCurrentResource env st) = []"
  by (simp_all add: saveCurrentResource_def savedEntry_def Let_def saveAll_fields)

text \<open>
  Claim C4. Round trip: from any well-formed state, \<open>saveCurrentResource\<close> followed by
  a restart (\<open>mount\<close> on the storage it left, which runs \<open>load\<close>) gives a collection that
  is the old one with the saved entry at the end, and the entry has the name that was
  saved and the scores of the live ratings.
\<close>

theorem save_then_load:
  assumes "wf_App st"
  shows "\<exists>r st'. resources (saveCurrentResource env st) = resources st @ [r]
          \<and> res_scores r = scores st
          \<and> res_name r = (if trim (resourceName st) \<noteq> [] then trim (resourceName st)
                           else ''Resource '' @ decimal (length (resources st) + 1))
          \<and> load (localStorage (saveCurrentResource env st)) = enc_resources (resources st @ [r])
          \<and> mount (localStorage (saveCurrentResource env st)) = Some st'
          \<and> resources st' = resources st @ [r]
          \<and> r \<in> set (resources st')"
proof -
  let ?r = "savedEntry env st"
  let ?ls = "localStorage (saveCurrentResource env st)"
  have d: "\<forall>r \<in> set (resources st @ [?r]). distinct (map fst (res_scores r))"
    using assms by (simp add: wf_App_def savedEntry_def)
  have w: "?ls ''resourcesV1'' = Some (JSON_stringify (enc_resources (resources st @ [?r])))"
    by (simp add: saveCurrentResource_fields)
  have l: "load ?ls = enc_resources (resources st @ [?r])"
    using d w by (rule load_written)
  have m: "mount ?ls = Some \<lparr>pairKey = RAID, showFull = False, scores = initialScores,
      resources = resources st @ [?r], resourceName = [], localStorage = ?ls\<rparr>"
    by (simp add: mount_def l as_resources_enc)
  have a: "resources (saveCurrentResource env st) = resources st @ [?r]"
    by (simp add: saveCurrentResource_fields)
  have b: "res_scores ?r = scores st" by (simp add: savedEntry_def)
  have c: "res_name ?r = (if trim (resourceName st) \<noteq> [] then trim (resourceName st)
                           else ''Resource '' @ decimal (length (resources st) + 1))"
    by (simp add: savedEntry_def)
  show ?thesis
    apply (rule exI [of _ ?r])
    apply (rule exI [of _ "\<lparr>pairKey = RAID, showFull = False, scores = initialScores,
      resources = resources st @ [?r], resourceName = [], localStorage = ?ls\<rparr>"])
    using a b c l m apply simp
    done
qed

text \<open>
  Claim C5. \<open>load\<close> gives the empty collection when the key is missing and when the stored
  text does not parse; it is a total function, so nothing is raised to the caller. For
  the text that \<open>saveAll\<close> writes for a list it gives that list back.
\<close>

theorem load_recovers:
  "(ls ''resourcesV1'' = None \<longrightarrow> load ls = JArr [])
   \<and> (\<forall>b. ls ''resourcesV1'' = Some b \<and> JSON_parse b = None \<longrightarrow> load ls = JArr [])
   \<and> as_resources (JArr []) = Some []
   \<and> ((\<forall>r \<in> set rs. distinct (map fst (res_scores r)))
        \<and> ls ''resourcesV1'' = Some (JSON_stringify (enc_resources rs))
       \<longrightarrow> load ls = enc_resources rs \<and> as_resources (load ls) = Some rs)"
  using load_missing [of ls] load_corrupt [of ls] load_written [of rs ls] as_resources_enc [of rs]
    as_resources_enc [of "[]"]
  by (auto simp add: enc_resources_def)

text \<open>
  Claim C6. \<open>saveCurrentResource\<close> appends exactly one entry at the end. Its identifier is
  the one generated for this call (the UUID, or the decimal clock value where there is no
  UUID), its name is the trimmed pending name, or "Resource n+1" for a collection of n
  entries when that is empty, and its scores are the live ones. The storage key is
  overwritten with the text of the whole new list, and the pending name is cleared.
\<close>

theorem saveCurrentResource_appends:
  "\<exists>r. resources (saveCurrentResource env st) = resources st @ [r]
      \<and> length (resources (saveCurrentResource env st)) = length (resources st) + 1
      \<and> res_id r = newId env
      \<and> (randomUUID env = None \<longrightarrow> res_id r = decimal (now env))
      \<and> (\<forall>u. randomUUID env = Some u \<and> u \<noteq> [] \<longrightarrow> res_id r = u)
      \<and> res_name r = (if trim (resourceName st) \<noteq> [] then trim (resourceName st)
                       else ''Resource '' @ decimal (length (resources st) + 1))
      \<and> res_scores r = scores st
      \<and> localStorage (saveCurrentResource env st) =
           (localStorage st)(''resourcesV1'' \<mapsto>
              JSON_stringify (enc_resources (resources (saveCurrentResource env st))))
      \<and> resourceName (saveCurrentResource env st) = []"
  apply (rule exI [of _ "savedEntry env st"])
  apply (simp add: saveCurrentResource_fields)
  apply (simp add: savedEntry_def newId_def)
  done

text \<open>
  Claim C7. \<open>deleteResource\<close> keeps, in order, exactly the entries whose identifier is
  not the given one, and writes the new list to the storage key. When no entry has the
  identifier the collection is the same as before; nothing else of the state changes and
  no error is possible.
\<close>

theorem deleteResource_removes:
  "resources (deleteResource rid st) = filter (\<lambda>r. res_id r \<noteq> rid) (resources st)
   \<and> (\<forall>r. r \<in> set (resources (deleteResource rid st))
            \<longleftrightarrow> r \<in> set (resources st) \<and> res_id r \<noteq> rid)
   \<and> localStorage (deleteResource rid st) =
        (localStorage st)(''resourcesV1'' \<mapsto>
           JSON_stringify (enc_resources (resources (deleteResource rid st))))
   \<and> (rid \<notin> res_id ` set (resources st) \<longrightarrow> resources (deleteResource rid st) = resources st)
   \<and> scores (deleteResource rid st) = scores st
   \<and> resourceName (deleteResource rid st) = resourceName st"
proof -
  have "rid \<notin> res_id ` set (resources st) \<longrightarrow> filter (\<lambda>r. res_id r \<noteq> rid) (resources st) = resources st"
    by (auto simp add: filter_id_conv)
  then show ?thesis
    by (simp add: deleteResource_def saveAll_fields)
qed

subsection \<open>Saved entries and the live ratings\<close>

lemma setScores_ref_fields:
  "objects (setScores_ref k n h) = (objects h)(allocated h := setScore k n (objects h (scoresRef h)))"
  "allocated (setScores_ref k n h) = Suc (allocated h)"
  "scoresRef (setScores_ref k n h) = allocated h"
  "resourcesRef (setScores_ref k n h) = resourcesRef h"
  "resourceNameRef (setScores_ref k n h) = resourceNameRef h"
  by (simp_all add: setScores_ref_def alloc_def)

lemma saveCurrentResource_ref_fields:
  "objects (saveCurrentResource_ref env h) = (objects h)(allocated h := objects h (scoresRef h))"
  "allocated (saveCurrentResource_ref env h) = Suc (allocated h)"
  "scoresRef (saveCurrentResource_ref env h) = scoresRef h"
  "resourcesRef (saveCurrentResource_ref env h) =
     resourcesRef h @ [\<lparr>ref_id = newId env,
        ref_name = (if trim (resourceNameRef h) \<noteq> [] then trim (resourceNameRef h)
                    else ''Resource '' @ decimal (length (resourcesRef h) + 1)),
        ref_scores = allocated h\<rparr>]"
  "resourceNameRef (saveCurrentResource_ref env h) = []"
  by (simp_all add: saveCurrentResource_ref_def alloc_def Let_def)

lemma wf_ref_setScores_ref: "wf_ref h \<Longrightarrow> wf_ref (setScores_ref k n h)"
  by (auto simp add: wf_ref_def setScores_ref_fields less_Suc_eq)

lemma wf_ref_saveCurrentResource_ref: "wf_ref h \<Longrightarrow> wf_ref (saveCurrentResource_ref env h)"
  by (auto simp add: wf_ref_def saveCurrentResource_ref_fields less_Suc_eq)

lemma sliders_frame:
  "wf_ref h \<Longrightarrow>
   wf_ref (foldl (\<lambda>a kn. setScores_ref (fst kn) (snd kn) a) h us)
   \<and> resourcesRef (foldl (\<lambda>a kn. setScores_ref (fst kn) (snd kn) a) h us) = resourcesRef h
   \<and> allocated h \<le> allocated (foldl (\<lambda>a kn. setScores_ref (fst kn) (snd kn) a) h us)
   \<and> (\<forall>a < allocated h. objects (foldl (\<lambda>a kn. setScores_ref (fst kn) (snd kn) a) h us) a = objects h a)
   \<and> (scoresRef (foldl (\<lambda>a kn. setScores_ref (fst kn) (snd kn) a) h us) = scoresRef h
        \<or> allocated h \<le> scoresRef (foldl (\<lambda>a kn. setScores_ref (fst kn) (snd kn) a) h us))"
proof (induction us arbitrary: h)
  case Nil
  then show ?case by simp
next
  case (Cons u us)
  let ?h = "setScores_ref (fst u) (snd u) h"
  let ?f = "foldl (\<lambda>a kn. setScores_ref (fst kn) (snd kn) a) ?h us"
  have w: "wf_ref ?h" using Cons.prems by (rule wf_ref_setScores_ref)
  note ih = Cons.IH [OF w]
  have 1: "wf_ref ?f" using ih by blast
  have 2: "resourcesRef ?f = resourcesRef h" using ih by (simp add: setScores_ref_fields)
  have 3: "allocated h \<le> allocated ?f" using ih by (simp add: setScores_ref_fields)
  have 4: "\<forall>a < allocated h. objects ?f a = objects h a"
  proof (intro allI impI)
    fix a assume a: "a < allocated h"
    then have "a < allocated ?h" by (simp add: setScores_ref_fields)
    then have "objects ?f a = objects ?h a" using ih by blast
    also have "\<dots> = objects h a" using a by (simp add: setScores_ref_fields)
    finally show "objects ?f a = objects h a" .
  qed
  have 5: "allocated h \<le> scoresRef ?f"
    using ih by (auto simp add: setScores_ref_fields)
  show ?case using 1 2 3 4 5 by simp
qed

lemma sliders_value_frame:
  "resources (foldl (\<lambda>a kn. setScores (fst kn) (snd kn) a) st us) = resources st"
  by (induction us arbitrary: st) (simp_all add: setScores_def)

lemma shows_ref_setScores:
  "wf_ref h \<Longrightarrow> shows_ref st h \<Longrightarrow> shows_ref (setScores k n st) (setScores_ref k n h)"
  by (auto simp add: shows_ref_def setScores_def setScores_ref_fields deref_def wf_ref_def)

lemma shows_ref_saveCurrentResource:
  "wf_ref h \<Longrightarrow> shows_ref st h \<Longrightarrow>
   shows_ref (saveCurrentResource env st) (saveCurrentResource_ref env h)"
  by (auto simp add: shows_ref_def saveCurrentResource_fields saveCurrentResource_ref_fields
        savedEntry_def deref_def wf_ref_def)

text \<open>
  Claim C8. A saved entry does not change when the live ratings do. At the level of
  references: \<open>saveCurrentResource\<close> stores a new object, different from the live one,
  with the content the live ratings have at that time; after any sequence of slider
  updates the list of saved entries and the content of the object of every entry are the
  same, and no entry shares its object with the live ratings. At the level of values the
  collection after the updates is the collection after the save.
\<close>

theorem saved_scores_immutable:
  assumes "wf_ref h" and "shows_ref st h"
  shows "\<exists>r. resourcesRef (saveCurrentResource_ref env h) = resourcesRef h @ [r]
     \<and> ref_scores r \<noteq> scoresRef h
     \<and> objects (saveCurrentResource_ref env h) (ref_scores r) = objects h (scoresRef h)
     \<and> resourcesRef (foldl (\<lambda>a kn. setScores_ref (fst kn) (snd kn) a) (saveCurrentResource_ref env h) us)
          = resourcesRef h @ [r]
     \<and> (\<forall>e \<in> set (resourcesRef h @ [r]).
          objects (foldl (\<lambda>a kn. setScores_ref (fst kn) (snd kn) a) (saveCurrentResource_ref env h) us)
            (ref_scores e) = objects (saveCurrentResource_ref env h) (ref_scores e))
     \<and> ref_scores r \<noteq>
          scoresRef (foldl (\<lambda>a kn. setScores_ref (fst kn) (snd kn) a) (saveCurrentResource_ref env h) us)
     \<and> resources (foldl (\<lambda>a kn. setScores (fst kn) (snd kn) a) (saveCurrentResource env st) us)
          = resources (saveCurrentResource env st)
     \<and> resources (saveCurrentResource env st)
          = map (deref (foldl (\<lambda>a kn. setScores_ref (fst kn) (snd kn) a) (saveCurrentResource_ref env h) us))
              (resourcesRef h @ [r])"
proof -
  let ?h1 = "saveCurrentResource_ref env h"
  let ?h2 = "foldl (\<lambda>a kn. setScores_ref (fst kn) (snd kn) a) ?h1 us"
  let ?r = "\<lparr>ref_id = newId env,
        ref_name = (if trim (resourceNameRef h) \<noteq> [] then trim (resourceNameRef h)
                    else ''Resource '' @ decimal (length (resourcesRef h) + 1)),
        ref_scores = allocated h\<rparr>"
  have w1: "wf_ref ?h1" using assms(1) by (rule wf_ref_saveCurrentResource_ref)
  note fr = sliders_frame [OF w1, of us]
  have a: "resourcesRef ?h1 = resourcesRef h @ [?r]"
    by (simp add: saveCurrentResource_ref_fields)
  have b: "ref_scores ?r \<noteq> scoresRef h"
    using assms(1) by (simp add: wf_ref_def)
  have c: "objects ?h1 (ref_scores ?r) = objects h (scoresRef h)"
    by (simp add: saveCurrentResource_ref_fields)
  have d: "resourcesRef ?h2 = resourcesRef h @ [?r]"
    using fr a by simp
  have e: "\<forall>e \<in> set (resourcesRef h @ [?r]). objects ?h2 (ref_scores e) = objects ?h1 (ref_scores e)"
  proof
    fix e assume "e \<in> set (resourcesRef h @ [?r])"
    then have "e \<in> set (resourcesRef ?h1)" using a by simp
    then have "ref_scores e < allocated ?h1" using w1 by (simp add: wf_ref_def)
    then show "objects ?h2 (ref_scores e) = objects ?h1 (ref_scores e)" using fr by blast
  qed
  have f: "ref_scores ?r \<noteq> scoresRef ?h2"
  proof -
    have "scoresRef ?h2 = scoresRef h \<or> Suc (allocated h) \<le> scoresRef ?h2"
      using fr by (simp add: saveCurrentResource_ref_fields)
    then show ?thesis using b by auto
  qed
  have g: "resources (foldl (\<lambda>a kn. setScores (fst kn) (snd kn) a) (saveCurrentResource env st) us)
          = resources (saveCurrentResource env st)"
    by (rule sliders_value_frame)
  have s1: "shows_ref (saveCurrentResource env st) ?h1"
    using assms by (rule shows_ref_saveCurrentResource)
  have i: "resources (saveCurrentResource env st) = map (deref ?h2) (resourcesRef h @ [?r])"
  proof -
    have "resources (saveCurrentResource env st) = map (deref ?h1) (resourcesRef h @ [?r])"
      using s1 a by (simp add: shows_ref_def)
    also have "\<dots> = map (deref ?h2) (resourcesRef h @ [?r])"
      using e by (simp add: deref_def)
    finally show ?thesis .
  qed
  show ?thesis
    apply (rule exI [of _ ?r])
    using a b c d e f g i apply blast
    done
qed

subsection \<open>The properties on the example states\<close>

lemma trim_demo: "trim ''  My pilot '' = ''My pilot''"
  by (simp add: trim_def WhiteSpace_def strip_front.simps)

lemma decimal_demo: "decimal 1700000000123 = ''1700000000123''"
  by (simp add: decimal.simps digit_char_def)

lemma wf_App_demoApp: "wf_App demoApp"
  by (simp add: wf_App_def demoApp_def initialScores_def)

theorem save_then_load_witness:
  "\<exists>r st'. mount (localStorage (saveCurrentResource demoEnv demoApp)) = Some st'
      \<and> resources st' = [r] \<and> res_name r = ''My pilot'' \<and> res_scores r = initialScores"
proof -
  obtain r st' where
      "mount (localStorage (saveCurrentResource demoEnv demoApp)) = Some st'"
      "resources st' = resources demoApp @ [r]"
      "res_scores r = scores demoApp"
      "res_name r = (if trim (resourceName demoApp) \<noteq> [] then trim (resourceName demoApp)
                     else ''Resource '' @ decimal (length (resources demoApp) + 1))"
    using save_then_load [OF wf_App_demoApp, of demoEnv] by blast
  then show ?thesis
    by (simp add: demoApp_def trim_demo)
qed

lemma parse_garbage: "JSON_parse ''{oops'' = None"
  by (simp add: JSON_parse_def eval_nat_numeral skip_ws_def is_ws_def)

theorem load_recovers_witness:
  "load Map.empty = JArr []
   \<and> load [''resourcesV1'' \<mapsto> ''{oops''] = JArr []
   \<and> as_resources (load [''resourcesV1'' \<mapsto> JSON_stringify (enc_resources (resources demoTwo))])
       = Some (resources demoTwo)"
proof -
  have d: "\<forall>r \<in> set (resources demoTwo). distinct (map fst (res_scores r))"
    by (simp add: demoTwo_def initialScores_def)
  have 1: "load Map.empty = JArr []"
    using load_recovers [of Map.empty "[]"] by simp
  have 2: "load [''resourcesV1'' \<mapsto> ''{oops''] = JArr []"
    using load_recovers [of "[''resourcesV1'' \<mapsto> ''{oops'']" "[]"] parse_garbage by simp
  have 3: "as_resources (load [''resourcesV1'' \<mapsto> JSON_stringify (enc_resources (resources demoTwo))])
       = Some (resources demoTwo)"
    using load_recovers [of "[''resourcesV1'' \<mapsto> JSON_stringify (enc_resources (resources demoTwo))]"
        "resources demoTwo"] d by auto
  show ?thesis using 1 2 3 by simp
qed

lemma trim_empty: "trim [] = []"
  by (simp add: trim_def WhiteSpace_def strip_front.simps)

lemma decimal_three: "decimal (Suc (Suc (Suc 0))) = ''3''"
  by (simp add: decimal.simps digit_char_def)

theorem saveCurrentResource_appends_witness:
  "(\<exists>r. resources (saveCurrentResource demoEnv demoApp) = [r]
      \<and> res_id r = ''1700000000123'' \<and> res_name r = ''My pilot''
      \<and> localStorage (saveCurrentResource demoEnv demoApp) ''resourcesV1''
          = Some (JSON_stringify (enc_resources [r])))
   \<and> (\<exists>r. resources (saveCurrentResource \<lparr>randomUUID = Some ''0b4f'', now = 5\<rparr> demoTwo)
               = resources demoTwo @ [r]
      \<and> res_id r = ''0b4f'' \<and> res_name r = ''Resource 3'')"
proof -
  obtain r where
      "resources (saveCurrentResource demoEnv demoApp) = resources demoApp @ [r]"
      "randomUUID demoEnv = None \<longrightarrow> res_id r = decimal (now demoEnv)"
      "res_name r = (if trim (resourceName demoApp) \<noteq> [] then trim (resourceName demoApp)
                     else ''Resource '' @ decimal (length (resources demoApp) + 1))"
      "localStorage (saveCurrentResource demoEnv demoApp) =
           (localStorage demoApp)(''resourcesV1'' \<mapsto>
              JSON_stringify (enc_resources (resources (saveCurrentResource demoEnv demoApp))))"
    using saveCurrentResource_appends [of demoEnv demoApp]
    by (elim exE conjE) (rule that; assumption)
  note f = this
  have a: "resources (saveCurrentResource demoEnv demoApp) = [r]"
    using f(1) by (simp add: demoApp_def)
  have b: "res_id r = ''1700000000123''"
    using f(2) by (simp add: demoEnv_def decimal_demo)
  have c: "res_name r = ''My pilot''"
    using f(3) by (simp add: demoApp_def trim_demo)
  have d: "localStorage (saveCurrentResource demoEnv demoApp) ''resourcesV1''
          = Some (JSON_stringify (enc_resources [r]))"
    by (subst f(4)) (simp add: a)
  let ?env = "\<lparr>randomUUID = Some ''0b4f'', now = 5\<rparr>"
  obtain q where
      "resources (saveCurrentResource ?env demoTwo) = resources demoTwo @ [q]"
      "\<forall>u. randomUUID ?env = Some u \<and> u \<noteq> [] \<longrightarrow> res_id q = u"
      "res_name q = (if trim (resourceName demoTwo) \<noteq> [] then trim (resourceName demoTwo)
                     else ''Resource '' @ decimal (length (resources demoTwo) + 1))"
    using saveCurrentResource_appends [of ?env demoTwo]
    by (elim exE conjE) (rule that; assumption)
  note g = this
  have e: "res_id q = ''0b4f''" using g(2) by simp
  have h: "res_name q = ''Resource 3''"
    using g(3) by (simp add: demoTwo_def trim_empty decimal_three)
  show ?thesis using a b c d g(1) e h by blast
qed



theorem deleteResource_removes_witness:
  "resources (deleteResource ''a'' demoTwo)
     = [\<lparr>res_id = ''b'', res_name = ''Second'', res_scores = initialScores\<rparr>]
   \<and> resources (deleteResource ''zzz'' demoTwo) = resources demoTwo"
  using deleteResource_removes [of "''a''" demoTwo] deleteResource_removes [of "''zzz''" demoTwo]
  by (simp add: demoTwo_def)

theorem saved_scores_immutable_witness:
  "\<exists>r. resourcesRef (setScores_ref ''Relevance'' 5 (saveCurrentResource_ref demoEnv demoRef)) = [r]
     \<and> objects (setScores_ref ''Relevance'' 5 (saveCurrentResource_ref demoEnv demoRef)) (ref_scores r)
         = initialScores
     \<and> ref_scores r \<noteq> scoresRef (setScores_ref ''Relevance'' 5 (saveCurrentResource_ref demoEnv demoRef))"
proof -
  have w: "wf_ref demoRef" by (simp add: wf_ref_def demoRef_def)
  have s: "shows_ref demoApp demoRef"
    by (simp add: shows_ref_def demoRef_def demoApp_def)
  obtain r where
      "resourcesRef (foldl (\<lambda>a kn. setScores_ref (fst kn) (snd kn) a)
          (saveCurrentResource_ref demoEnv demoRef) [(''Relevance'', 5)]) = resourcesRef demoRef @ [r]"
      "\<forall>e \<in> set (resourcesRef demoRef @ [r]).
          objects (foldl (\<lambda>a kn. setScores_ref (fst kn) (snd kn) a)
             (saveCurrentResource_ref demoEnv demoRef) [(''Relevance'', 5)]) (ref_scores e)
            = objects (saveCurrentResource_ref demoEnv demoRef) (ref_scores e)"
      "objects (saveCurrentResource_ref demoEnv demoRef) (ref_scores r) = objects demoRef (scoresRef demoRef)"
      "ref_scores r \<noteq> scoresRef (foldl (\<lambda>a kn. setScores_ref (fst kn) (snd kn) a)
          (saveCurrentResource_ref demoEnv demoRef) [(''Relevance'', 5)])"
    using saved_scores_immutable [OF w s, of demoEnv "[(''Relevance'', 5)]"] by blast
  then show ?thesis
    by (simp add: demoRef_def)
qed

subsection \<open>Well-formed states\<close>

text \<open>What \<open>JSON_parse\<close> returns has objects with distinct keys.\<close>

lemma set_update_subset: "set (AList.update k v al) \<subseteq> insert (k, v) (set al)"
  by (induction al) auto

lemma foldl_update_wf:
  "distinct (map fst acc) \<Longrightarrow>
   distinct (map fst (foldl (\<lambda>acc kv. AList.update (fst kv) (snd kv) acc) acc kvs))
   \<and> set (foldl (\<lambda>acc kv. AList.update (fst kv) (snd kv) acc) acc kvs) \<subseteq> set acc \<union> set kvs"
proof (induction kvs arbitrary: acc)
  case Nil
  then show ?case by simp
next
  case (Cons kv kvs)
  have d: "distinct (map fst (AList.update (fst kv) (snd kv) acc))"
    using Cons.prems by (rule distinct_update)
  have s: "set (AList.update (fst kv) (snd kv) acc) \<subseteq> insert kv (set acc)"
    using set_update_subset [of "fst kv" "snd kv" acc] by simp
  show ?case
    using Cons.IH [OF d] s by auto
qed

lemma wf_json_object_of:
  "\<forall>kv \<in> set kvs. wf_json (snd kv) \<Longrightarrow> wf_json (object_of kvs)"
  using foldl_update_wf [of "[]" kvs] by (auto simp add: object_of_def)

lemma wf_json_parse_number: "parse_number s = Some (v, r) \<Longrightarrow> wf_json v"
  by (auto simp add: parse_number_def Let_def split: if_splits)

lemma wf_json_parse_literal: "parse_literal s = Some (v, r) \<Longrightarrow> wf_json v"
  by (auto simp add: parse_literal_def split: if_splits)

lemma parse_wf:
  "(\<forall>s v r. parse_value n s = Some (v, r) \<longrightarrow> wf_json v)
   \<and> (\<forall>s vs r. parse_elems n s = Some (vs, r) \<longrightarrow> (\<forall>v \<in> set vs. wf_json v))
   \<and> (\<forall>s kvs r. parse_members n s = Some (kvs, r) \<longrightarrow> (\<forall>kv \<in> set kvs. wf_json (snd kv)))"
proof (induction n)
  case 0
  show ?case by simp
next
  case (Suc n)
  have iv: "\<forall>s v r. parse_value n s = Some (v, r) \<longrightarrow> wf_json v"
    and ie: "\<forall>s vs r. parse_elems n s = Some (vs, r) \<longrightarrow> (\<forall>v \<in> set vs. wf_json v)"
    and im: "\<forall>s kvs r. parse_members n s = Some (kvs, r) \<longrightarrow> (\<forall>kv \<in> set kvs. wf_json (snd kv))"
    using Suc.IH by blast+
  have v: "wf_json v" if "parse_value (Suc n) s = Some (v, r)" for s v r
  proof -
    have "skip_ws s \<noteq> []"
    proof
      assume "skip_ws s = []"
      then have "parse_value (Suc n) s = None" by simp
      with that show False by simp
    qed
    then obtain c t where sk: "skip_ws s = c # t"
      by (cases "skip_ws s") auto
    note th = that [unfolded parse_value.simps(2) sk list.case]
    show ?thesis
    proof (cases "c = CHR ''{''")
      case True
      note th1 = th [unfolded True if_P [OF refl]]
      show ?thesis
      proof (cases "skip_ws t \<noteq> [] \<and> hd (skip_ws t) = CHR ''}''")
        case True
        then show ?thesis using th1 by auto
      next
        case False
        then obtain kvs where "parse_members n t = Some (kvs, r)" "v = object_of kvs"
          using th1 by (auto split: option.splits)
        then show ?thesis using im wf_json_object_of by blast
      qed
    next
      case nobj: False
      note th1 = th [unfolded if_not_P [OF nobj]]
      show ?thesis
      proof (cases "c = CHR ''[''")
        case True
        note th2 = th1 [unfolded True if_P [OF refl]]
        show ?thesis
        proof (cases "skip_ws t \<noteq> [] \<and> hd (skip_ws t) = CHR '']''")
          case True
          then show ?thesis using th2 by auto
        next
          case False
          then obtain vs where "parse_elems n t = Some (vs, r)" "v = JArr vs"
            using th2 by (auto split: option.splits)
          then show ?thesis using ie by auto
        qed
      next
        case narr: False
        note th2 = th1 [unfolded if_not_P [OF narr]]
        show ?thesis
        proof (cases "c = CHR 0x22")
          case True
          then show ?thesis using th2 by (auto split: option.splits)
        next
          case False
          then have "parse_number (c # t) = Some (v, r) \<or> parse_literal (c # t) = Some (v, r)"
            using th2 by (auto split: if_splits)
          then show ?thesis
            using wf_json_parse_number wf_json_parse_literal by blast
        qed
      qed
    qed
  qed
  have e: "\<forall>v \<in> set vs. wf_json v" if "parse_elems (Suc n) s = Some (vs, r)" for s vs r
  proof -
    have "parse_value n s \<noteq> None"
    proof
      assume "parse_value n s = None"
      then have "parse_elems (Suc n) s = None" by simp
      with that show False by simp
    qed
    then obtain a b where pv: "parse_value n s = Some (a, b)" by auto
    have wa: "wf_json a" using iv pv by blast
    have "skip_ws b \<noteq> []"
    proof
      assume "skip_ws b = []"
      then have "parse_elems (Suc n) s = None" using pv by simp
      with that show False by simp
    qed
    then obtain c t where sk: "skip_ws b = c # t"
      by (cases "skip_ws b") auto
    note th = that [unfolded parse_elems.simps(2) pv option.case prod.case sk list.case]
    show ?thesis
    proof (cases "c = CHR '']''")
      case True
      then show ?thesis using th wa by auto
    next
      case False
      then obtain ws where "parse_elems n t = Some (ws, r)" "vs = a # ws"
        using th by (auto split: option.splits if_splits)
      then show ?thesis using ie wa by auto
    qed
  qed
  have m: "\<forall>kv \<in> set kvs. wf_json (snd kv)" if "parse_members (Suc n) s = Some (kvs, r)" for s kvs r
  proof -
    have "skip_ws s \<noteq> []"
    proof
      assume "skip_ws s = []"
      then have "parse_members (Suc n) s = None" by simp
      with that show False by simp
    qed
    then obtain q t where sk: "skip_ws s = q # t"
      by (cases "skip_ws s") auto
    have q: "q = CHR 0x22"
    proof (rule ccontr)
      assume "q \<noteq> CHR 0x22"
      then have "parse_members (Suc n) s = None" using sk by simp
      with that show False by simp
    qed
    have "parse_chars t \<noteq> None"
    proof
      assume "parse_chars t = None"
      then have "parse_members (Suc n) s = None" using sk q by simp
      with that show False by simp
    qed
    then obtain k r1 where pc: "parse_chars t = Some (k, r1)" by auto
    have "skip_ws r1 \<noteq> []"
    proof
      assume "skip_ws r1 = []"
      then have "parse_members (Suc n) s = None" using sk q pc by simp
      with that show False by simp
    qed
    then obtain colon r2 where sk1: "skip_ws r1 = colon # r2"
      by (cases "skip_ws r1") auto
    have colon: "colon = CHR '':''"
    proof (rule ccontr)
      assume "colon \<noteq> CHR '':''"
      then have "parse_members (Suc n) s = None" using sk q pc sk1 by simp
      with that show False by simp
    qed
    have "parse_value n r2 \<noteq> None"
    proof
      assume "parse_value n r2 = None"
      then have "parse_members (Suc n) s = None" using sk q pc sk1 colon by simp
      with that show False by simp
    qed
    then obtain a r3 where pv: "parse_value n r2 = Some (a, r3)" by auto
    have wa: "wf_json a" using iv pv by blast
    have "skip_ws r3 \<noteq> []"
    proof
      assume "skip_ws r3 = []"
      then have "parse_members (Suc n) s = None" using sk q pc sk1 colon pv by simp
      with that show False by simp
    qed
    then obtain c r4 where sk3: "skip_ws r3 = c # r4"
      by (cases "skip_ws r3") auto
    have eq: "parse_members (Suc n) s =
        (if c = CHR ''}'' then Some ([(k, a)], r4)
         else if c = CHR '','' then
           (case parse_members n r4 of None \<Rightarrow> None | Some (kvs, r5) \<Rightarrow> Some ((k, a) # kvs, r5))
         else None)"
      using sk q pc sk1 colon pv sk3 by simp
    note th = that [unfolded eq]
    show ?thesis
    proof (cases "c = CHR ''}''")
      case True
      then show ?thesis using th wa by auto
    next
      case False
      then obtain rest where "parse_members n r4 = Some (rest, r)" "kvs = (k, a) # rest"
        using th by (auto split: option.splits if_splits)
      then show ?thesis using im wa by auto
    qed
  qed
  show ?case using v e m by blast
qed

lemma wf_json_JSON_parse:
  assumes "JSON_parse s = Some v"
  shows "wf_json v"
proof (cases "parse_value (2 * length s + 2) s")
  case None
  with assms show ?thesis unfolding JSON_parse_def by simp
next
  case (Some vr)
  obtain w r where vr: "vr = (w, r)" by (cases vr)
  have "w = v"
    using assms unfolding JSON_parse_def Some vr by (simp split: if_splits)
  then show ?thesis
    using parse_wf [of "2 * length s + 2"] Some vr by blast
qed

lemma dec_entries_keys: "dec_entries kvs = Some s \<Longrightarrow> map fst s = map fst kvs"
  by (induction kvs arbitrary: s rule: dec_entries.induct) (auto split: option.splits)

lemma dec_resource_distinct:
  assumes "dec_resource v = Some r" and "wf_json v"
  shows "distinct (map fst (res_scores r))"
proof -
  obtain kvs where v: "v = JObj kvs"
    using assms(1) by (cases v) (simp_all add: dec_resource_def)
  obtain sc s where sc: "map_of kvs ''scores'' = Some (JObj sc)"
    and s: "dec_entries sc = Some s" and r: "res_scores r = s"
    using assms(1) unfolding v dec_resource_def
    by (auto split: option.splits jsval.splits)
  have mem: "(''scores'', JObj sc) \<in> set kvs" using sc by (rule map_of_SomeD)
  have "\<forall>kv \<in> set kvs. wf_json (snd kv)" using assms(2) v by simp
  then have "wf_json (snd (''scores'', JObj sc))" using mem by blast
  then have "distinct (map fst sc)" by simp
  then show ?thesis using dec_entries_keys [OF s] r by simp
qed

lemma those_map_Some:
  "those (map f xs) = Some ys \<Longrightarrow> \<forall>y \<in> set ys. \<exists>x \<in> set xs. f x = Some y"
proof (induction xs arbitrary: ys)
  case Nil
  then show ?case by simp
next
  case (Cons x xs)
  obtain y where y: "f x = Some y"
    using Cons.prems by (cases "f x") simp_all
  obtain zs where zs: "those (map f xs) = Some zs"
    using Cons.prems y by (cases "those (map f xs)") simp_all
  have ys: "ys = y # zs" using Cons.prems y zs by simp
  show ?case
    using Cons.IH [OF zs] y ys by auto
qed

lemma as_resources_distinct:
  assumes "as_resources v = Some rs" and "wf_json v"
  shows "\<forall>r \<in> set rs. distinct (map fst (res_scores r))"
proof -
  obtain vs where v: "v = JArr vs"
    using assms(1) by (cases v) (simp_all add: as_resources_def)
  have t: "those (map dec_resource vs) = Some rs"
    using assms(1) by (simp add: v as_resources_def)
  show ?thesis
  proof
    fix r assume "r \<in> set rs"
    then obtain x where "x \<in> set vs" "dec_resource x = Some r"
      using those_map_Some [OF t] by blast
    moreover have "wf_json x" using assms(2) v \<open>x \<in> set vs\<close> by simp
    ultimately show "distinct (map fst (res_scores r))"
      using dec_resource_distinct by blast
  qed
qed

lemma wf_json_load: "wf_json (load ls)"
  by (auto simp add: load_def Let_def split: option.splits dest: wf_json_JSON_parse)

text \<open>
  Every state that the application reaches is well formed: the state after a restart is,
  and saving, deleting and moving a slider keep it so.
\<close>

lemma wf_App_mount: "mount ls = Some st \<Longrightarrow> wf_App st"
  using as_resources_distinct [OF _ wf_json_load, of ls]
  by (auto simp add: mount_def wf_App_def initialScores_def split: option.splits)

lemma wf_App_saveCurrentResource: "wf_App st \<Longrightarrow> wf_App (saveCurrentResource env st)"
  by (auto simp add: wf_App_def saveCurrentResource_fields savedEntry_def)

lemma wf_App_deleteResource: "wf_App st \<Longrightarrow> wf_App (deleteResource rid st)"
  by (auto simp add: wf_App_def deleteResource_def saveAll_fields)

lemma wf_App_setScores: "wf_App st \<Longrightarrow> wf_App (setScores k n st)"
  by (auto simp add: wf_App_def setScores_def setScore_def distinct_update)

end
